theory Spec2Isabelle
  imports Main "HOL-Library.Word"
begin

unbundle bit_operations_syntax

section \<open>Data model of mcp2515.c\<close>

type_synonym u8 = "8 word"
type_synonym u32 = "32 word"

text \<open>The statistics counters are \<open>unsigned long\<close>; they are taken at 64 bits and wrap.\<close>

type_synonym ulong = "64 word"

subsection \<open>Register bits (lines 73 to 88) and the flags of \<open>can_id\<close>\<close>

definition RXBSIDL_SRR :: u8 where "RXBSIDL_SRR = 0x10"
definition RXBSIDL_IDE :: u8 where "RXBSIDL_IDE = 0x08"
definition RXBDLC_RTR :: u8 where "RXBDLC_RTR = 0x40"

definition CANINTF_ERRIF :: u8 where "CANINTF_ERRIF = 0x20"
definition CANINTF_TX0IF :: u8 where "CANINTF_TX0IF = 0x04"
definition CANINTF_RX1IF :: u8 where "CANINTF_RX1IF = 0x02"
definition CANINTF_RX0IF :: u8 where "CANINTF_RX0IF = 0x01"

definition EFLG_RX1OVR :: u8 where "EFLG_RX1OVR = 0x80"
definition EFLG_RX0OVR :: u8 where "EFLG_RX0OVR = 0x40"

text \<open>
  \<open>linux/can.h\<close>, outside the driver: bit 31 of \<open>can_id\<close> tags an extended frame, bit 30
  a remote request, bit 29 an error frame; the identifier is the low 29 bits.
\<close>

definition CAN_EFF_FLAG :: u32 where "CAN_EFF_FLAG = 0x80000000"
definition CAN_RTR_FLAG :: u32 where "CAN_RTR_FLAG = 0x40000000"
definition CAN_ERR_FLAG :: u32 where "CAN_ERR_FLAG = 0x20000000"
definition CAN_EFF_MASK :: u32 where "CAN_EFF_MASK = 0x1FFFFFFF"
definition CAN_SFF_MASK :: u32 where "CAN_SFF_MASK = 0x000007FF"

subsection \<open>Frames, socket buffers, the private data and the device\<close>

text \<open>\<open>struct can_frame\<close>: \<open>data\<close> is the array \<open>__u8 data[8]\<close>, a list of 8 bytes.\<close>

record can_frame =
  can_id :: u32
  can_dlc :: u8
  data :: "u8 list"

text \<open>
  \<open>struct sk_buff\<close>, as far as the driver looks at it: \<open>skb->len\<close> and the frame that
  \<open>skb->data\<close> points to.
\<close>

record sk_buff =
  skb_len :: nat
  skb_data :: can_frame

text \<open>The seven completion callbacks that \<open>message.complete\<close> can point to.\<close>

datatype callback =
  Read_flags_complete
  | Read_rxb0_complete
  | Read_rxb1_complete
  | Clear_canintf_complete
  | Clear_eflg_complete
  | Load_txb0_complete
  | Rts_txb0_complete

text \<open>
  \<open>struct mcp2515_priv\<close> (lines 91 to 110). \<open>skb\<close> is a pointer, \<open>None\<close> is \<open>NULL\<close>.
  \<open>transfer_len\<close> is \<open>transfer.len\<close>, \<open>message_complete\<close> is \<open>message.complete\<close>, and
  \<open>rx_buf\<close>, \<open>tx_buf\<close> are the two 14 byte buffers that \<open>transfer.rx_buf\<close> and
  \<open>transfer.tx_buf\<close> point to.
\<close>

record mcp2515_priv =
  canintf :: u8
  eflg :: u8
  skb :: "sk_buff option"
  busy :: bool
  interrupt :: bool
  transmit :: bool
  transfer_len :: nat
  message_complete :: "callback option"
  rx_buf :: "u8 list"
  tx_buf :: "u8 list"

text \<open>The counters of \<open>dev->stats\<close> that the driver and its kernel helpers write.\<close>

record net_device_stats =
  rx_packets :: ulong
  tx_packets :: ulong
  rx_bytes :: ulong
  tx_bytes :: ulong
  rx_dropped :: ulong
  tx_dropped :: ulong
  rx_over_errors :: ulong

text \<open>
  \<open>struct net_device\<close> with its private data, followed by what the kernel around the driver
  holds for this device:
  \<^item> \<open>queue_stopped\<close>: the transmit queue is stopped (\<open>netif_stop_queue\<close>) or awake
    (\<open>netif_wake_queue\<close>); \<open>wake_calls\<close> counts the calls of \<open>netif_wake_queue\<close>;
  \<^item> \<open>netif_rx_log\<close>: the frames handed upward by \<open>netif_rx\<close>, oldest first;
  \<^item> \<open>echo_log\<close>: the socket buffers looped back by \<open>can_put_echo_skb\<close> followed by
    \<open>can_get_echo_skb\<close>;
  \<^item> \<open>err_log\<close>: the error codes printed by \<open>netdev_err\<close>;
  \<^item> \<open>spi_pending\<close>: the messages accepted by \<open>spi_async\<close> whose completion has not run
    yet (the bytes to send), oldest first; \<open>spi_calls\<close> counts the calls of \<open>spi_async\<close>;
  \<^item> \<open>spi_async_ret\<close>: what the next call of \<open>spi_async\<close> returns, and \<open>alloc_ok\<close>:
    whether the next \<open>alloc_can_skb\<close> succeeds. Both are chosen by the environment.
\<close>

record net_device =
  priv :: mcp2515_priv
  stats :: net_device_stats
  queue_stopped :: bool
  wake_calls :: nat
  netif_rx_log :: "can_frame list"
  echo_log :: "sk_buff list"
  err_log :: "int list"
  spi_pending :: "u8 list list"
  spi_calls :: nat
  spi_async_ret :: int
  alloc_ok :: bool

text \<open>
  What C leaves undefined and the kernel answers with an oops: following a \<open>NULL\<close>
  pointer, and a \<open>memcpy\<close> that leaves its source or destination array.
\<close>

datatype fault = Null_pointer_dereference | Buffer_overrun

datatype netdev_tx = NETDEV_TX_OK | NETDEV_TX_BUSY

datatype irqreturn = IRQ_NONE | IRQ_HANDLED

section \<open>Kernel helpers used by the driver\<close>

text \<open>
  \<open>get_can_dlc\<close> of \<open>linux/can/dev.h\<close>, outside the driver: \<open>min_t(__u8, (i), 8)\<close>.
\<close>

definition get_can_dlc :: "u8 \<Rightarrow> u8" where
  "get_can_dlc i = min i 8"

text \<open>
  \<open>can_dropped_invalid_skb\<close> of \<open>linux/can/dev.h\<close>, outside the driver: a socket buffer
  whose length is not that of a \<open>struct can_frame\<close> (16 bytes) or whose length code exceeds 8
  is freed and counted in \<open>tx_dropped\<close>, and the result is true.
\<close>

definition can_dropped_invalid_skb :: "net_device \<Rightarrow> sk_buff \<Rightarrow> bool \<times> net_device" where
  "can_dropped_invalid_skb dev s =
     (if skb_len s \<noteq> 16 \<or> 8 < can_dlc (skb_data s)
      then (True, dev\<lparr>stats := (stats dev)\<lparr>tx_dropped := tx_dropped (stats dev) + 1\<rparr>\<rparr>)
      else (False, dev))"

text \<open>
  \<open>alloc_can_skb\<close>, outside the driver: \<open>NULL\<close> when memory is short, else a socket
  buffer whose frame is all zero.
\<close>

definition zero_frame :: can_frame where
  "zero_frame = \<lparr>can_id = 0, can_dlc = 0, data = replicate 8 0\<rparr>"

definition alloc_can_skb :: "net_device \<Rightarrow> can_frame option" where
  "alloc_can_skb dev = (if alloc_ok dev then Some zero_frame else None)"

definition netif_rx :: "can_frame \<Rightarrow> net_device \<Rightarrow> net_device" where
  "netif_rx frame dev = dev\<lparr>netif_rx_log := netif_rx_log dev @ [frame]\<rparr>"

definition netif_stop_queue :: "net_device \<Rightarrow> net_device" where
  "netif_stop_queue dev = dev\<lparr>queue_stopped := True\<rparr>"

definition netif_wake_queue :: "net_device \<Rightarrow> net_device" where
  "netif_wake_queue dev = dev\<lparr>queue_stopped := False, wake_calls := wake_calls dev + 1\<rparr>"

text \<open>\<open>can_put_echo_skb(skb, dev, 0)\<close> followed by \<open>can_get_echo_skb(dev, 0)\<close>.\<close>

definition can_echo_skb :: "sk_buff \<Rightarrow> net_device \<Rightarrow> net_device" where
  "can_echo_skb s dev = dev\<lparr>echo_log := echo_log dev @ [s]\<rparr>"

section \<open>The driver\<close>

subsection \<open>Issuing commands (lines 217 to 380)\<close>

text \<open>
  \<open>mcp2515_spi_async\<close>: hands the message to the transport. A refused message is logged
  and is not outstanding; an accepted one is outstanding with the first \<open>transfer.len\<close>
  bytes of the transmit buffer.
\<close>

definition mcp2515_spi_async :: "net_device \<Rightarrow> net_device" where
  "mcp2515_spi_async dev =
     (let err = spi_async_ret dev;
          dev = dev\<lparr>spi_calls := spi_calls dev + 1\<rparr>
      in if err \<noteq> 0 then dev\<lparr>err_log := err_log dev @ [err]\<rparr>
         else dev\<lparr>spi_pending :=
                    spi_pending dev @ [take (transfer_len (priv dev)) (tx_buf (priv dev))]\<rparr>)"

definition mcp2515_read_flags :: "net_device \<Rightarrow> net_device" where
  "mcp2515_read_flags dev =
     (let buf = (tx_buf (priv dev))[0 := 3, 1 := 0x2c, 2 := 0, 3 := 0]
      in mcp2515_spi_async
           (dev\<lparr>priv := (priv dev)\<lparr>tx_buf := buf, transfer_len := 4,
                                    message_complete := Some Read_flags_complete\<rparr>\<rparr>))"

text \<open>\<open>memset(buf, 0, 14)\<close> writes the first 14 bytes.\<close>

definition mcp2515_read_rxb :: "net_device \<Rightarrow> u8 \<Rightarrow> callback \<Rightarrow> net_device" where
  "mcp2515_read_rxb dev instruction complete =
     (let buf = replicate 14 0 @ drop 14 (tx_buf (priv dev));
          buf = buf[0 := instruction]
      in mcp2515_spi_async
           (dev\<lparr>priv := (priv dev)\<lparr>tx_buf := buf, transfer_len := 14,
                                    message_complete := Some complete\<rparr>\<rparr>))"

definition mcp2515_read_rxb0 :: "net_device \<Rightarrow> net_device" where
  "mcp2515_read_rxb0 dev = mcp2515_read_rxb dev 0x90 Read_rxb0_complete"

definition mcp2515_read_rxb1 :: "net_device \<Rightarrow> net_device" where
  "mcp2515_read_rxb1 dev = mcp2515_read_rxb dev 0x94 Read_rxb1_complete"

definition mcp2515_clear_canintf :: "net_device \<Rightarrow> net_device" where
  "mcp2515_clear_canintf dev =
     (let buf = (tx_buf (priv dev))
                  [0 := 5, 1 := 0x2c,
                   2 := canintf (priv dev) AND NOT (CANINTF_RX0IF OR CANINTF_RX1IF),
                   3 := 0]
      in mcp2515_spi_async
           (dev\<lparr>priv := (priv dev)\<lparr>tx_buf := buf, transfer_len := 4,
                                    message_complete := Some Clear_canintf_complete\<rparr>\<rparr>))"

definition mcp2515_clear_eflg :: "net_device \<Rightarrow> net_device" where
  "mcp2515_clear_eflg dev =
     (let buf = (tx_buf (priv dev))[0 := 5, 1 := 0x2d, 2 := eflg (priv dev), 3 := 0]
      in mcp2515_spi_async
           (dev\<lparr>priv := (priv dev)\<lparr>tx_buf := buf, transfer_len := 4,
                                    message_complete := Some Clear_eflg_complete\<rparr>\<rparr>))"

text \<open>
  \<open>mcp2515_set_txbuf\<close> (lines 323 to 348) writes through \<open>buf\<close> and returns the number
  of bytes set. The assignments to \<open>buf[i]\<close> truncate to 8 bits. The result is the buffer
  after the writes, with the count. \<open>skb->data\<close> of a \<open>NULL\<close> \<open>skb\<close> and a \<open>memcpy\<close>
  of \<open>can_dlc\<close> bytes that leaves \<open>frame->data\<close> or \<open>buf\<close> are faults.
\<close>

definition mcp2515_set_txbuf :: "u8 list \<Rightarrow> sk_buff option \<Rightarrow> fault + (u8 list \<times> nat)" where
  "mcp2515_set_txbuf buf sk =
     (case sk of
        None \<Rightarrow> Inl Null_pointer_dereference
      | Some s \<Rightarrow>
          let frame = skb_data s;
              cid = can_id frame;
              buf = (if cid AND CAN_EFF_FLAG \<noteq> 0
                     then buf[0 := ucast (drop_bit 21 cid),
                              1 := ucast ((drop_bit 13 cid AND 0xe0) OR 8 OR (drop_bit 16 cid AND 3)),
                              2 := ucast (drop_bit 8 cid),
                              3 := ucast cid]
                     else buf[0 := ucast (drop_bit 3 cid),
                              1 := ucast (push_bit 5 cid),
                              2 := 0,
                              3 := 0]);
              buf = (if cid AND CAN_RTR_FLAG \<noteq> 0
                     then buf[4 := can_dlc frame OR 0x40]
                     else buf[4 := can_dlc frame]);
              n = unat (can_dlc frame)
          in if length (data frame) < n \<or> length buf < 5 + n then Inl Buffer_overrun
             else Inr (take 5 buf @ take n (data frame) @ drop (5 + n) buf, 5 + n))"

text \<open>\<open>mcp2515_load_txb0\<close>: \<open>mcp2515_set_txbuf(buf + 1, skb)\<close> works on the buffer from its
  second byte on.\<close>

definition mcp2515_load_txb0 :: "sk_buff option \<Rightarrow> net_device \<Rightarrow> fault + net_device" where
  "mcp2515_load_txb0 sk dev =
     (let buf = (tx_buf (priv dev))[0 := 0x40]
      in case mcp2515_set_txbuf (drop 1 buf) sk of
           Inl f \<Rightarrow> Inl f
         | Inr (rest, n) \<Rightarrow>
             Inr (mcp2515_spi_async
                    (dev\<lparr>priv := (priv dev)\<lparr>tx_buf := take 1 buf @ rest, transfer_len := n + 1,
                                             message_complete := Some Load_txb0_complete\<rparr>\<rparr>)))"

definition mcp2515_rts_txb0 :: "net_device \<Rightarrow> net_device" where
  "mcp2515_rts_txb0 dev =
     (let buf = (tx_buf (priv dev))[0 := 0x81]
      in mcp2515_spi_async
           (dev\<lparr>priv := (priv dev)\<lparr>tx_buf := buf, transfer_len := 1,
                                    message_complete := Some Rts_txb0_complete\<rparr>\<rparr>))"

subsection \<open>Completion callbacks (lines 385 to 570)\<close>

definition mcp2515_read_flags_complete :: "net_device \<Rightarrow> fault + net_device" where
  "mcp2515_read_flags_complete dev =
     (let buf = rx_buf (priv dev);
          c = buf ! 2;
          dev = dev\<lparr>priv := (priv dev)\<lparr>canintf := c, eflg := buf ! 3\<rparr>\<rparr>
      in if c AND CANINTF_RX0IF \<noteq> 0 then Inr (mcp2515_read_rxb0 dev)
         else if c AND CANINTF_RX1IF \<noteq> 0 then Inr (mcp2515_read_rxb1 dev)
         else if c \<noteq> 0 then Inr (mcp2515_clear_canintf dev)
         else if transmit (priv dev)
           then let dev = dev\<lparr>priv := (priv dev)\<lparr>transmit := False\<rparr>\<rparr>
                in mcp2515_load_txb0 (skb (priv dev)) dev
         else if interrupt (priv dev)
           then let dev = dev\<lparr>priv := (priv dev)\<lparr>interrupt := False\<rparr>\<rparr>
                in Inr (mcp2515_read_flags dev)
         else Inr (dev\<lparr>priv := (priv dev)\<lparr>busy := False\<rparr>\<rparr>))"

text \<open>
  The frame that lines 436 to 450 of \<open>mcp2515_read_rxb_complete\<close> fill in, starting from
  the zeroed frame of \<open>alloc_can_skb\<close>. The bytes are promoted to \<open>int\<close> before the shifts;
  no shift leaves 32 bits.
\<close>

definition rxb_frame :: "u8 list \<Rightarrow> can_frame" where
  "rxb_frame buf =
     (let cid = (if buf ! 2 AND RXBSIDL_IDE \<noteq> 0
                then let cid = push_bit 21 (ucast (buf ! 1)) OR
                              push_bit 13 (ucast (buf ! 2 AND 0xe0)) OR
                              push_bit 16 (ucast (buf ! 2 AND 3)) OR
                              push_bit 8 (ucast (buf ! 3)) OR
                              ucast (buf ! 4) OR
                              CAN_EFF_FLAG
                     in if buf ! 5 AND RXBDLC_RTR \<noteq> 0 then cid OR CAN_RTR_FLAG else cid
                else let cid = push_bit 3 (ucast (buf ! 1)) OR ucast (drop_bit 5 (buf ! 2))
                     in if buf ! 2 AND RXBSIDL_SRR \<noteq> 0 then cid OR CAN_RTR_FLAG else cid);
          dlc = get_can_dlc (buf ! 5 AND 0xf);
          n = unat dlc
      in \<lparr>can_id = cid, can_dlc = dlc,
          data = take n (drop 6 buf) @ drop n (data zero_frame)\<rparr>)"

definition mcp2515_read_rxb_complete :: "net_device \<Rightarrow> net_device" where
  "mcp2515_read_rxb_complete dev =
     (let buf = rx_buf (priv dev)
      in case alloc_can_skb dev of
           None \<Rightarrow> dev\<lparr>stats := (stats dev)\<lparr>rx_dropped := rx_dropped (stats dev) + 1\<rparr>\<rparr>
         | Some _ \<Rightarrow>
             let frame = rxb_frame buf;
                 dev = dev\<lparr>stats := (stats dev)\<lparr>rx_packets := rx_packets (stats dev) + 1\<rparr>\<rparr>;
                 dev = dev\<lparr>stats := (stats dev)
                            \<lparr>rx_bytes := rx_bytes (stats dev) + ucast (can_dlc frame)\<rparr>\<rparr>
             in netif_rx frame dev)"

definition mcp2515_transmit_or_read_flags :: "net_device \<Rightarrow> fault + net_device" where
  "mcp2515_transmit_or_read_flags dev =
     (if transmit (priv dev)
      then let dev = dev\<lparr>priv := (priv dev)\<lparr>transmit := False\<rparr>\<rparr>
           in mcp2515_load_txb0 (skb (priv dev)) dev
      else Inr (mcp2515_read_flags dev))"

definition mcp2515_read_rxb0_complete :: "net_device \<Rightarrow> fault + net_device" where
  "mcp2515_read_rxb0_complete dev =
     (let dev = mcp2515_read_rxb_complete dev
      in if canintf (priv dev) AND CANINTF_RX1IF \<noteq> 0 then Inr (mcp2515_read_rxb1 dev)
         else mcp2515_transmit_or_read_flags dev)"

definition mcp2515_read_rxb1_complete :: "net_device \<Rightarrow> fault + net_device" where
  "mcp2515_read_rxb1_complete dev =
     (let dev = mcp2515_read_rxb_complete dev
      in mcp2515_transmit_or_read_flags dev)"

definition mcp2515_clear_canintf_complete :: "net_device \<Rightarrow> net_device" where
  "mcp2515_clear_canintf_complete dev =
     (let dev =
        (if canintf (priv dev) AND CANINTF_TX0IF \<noteq> 0
         then let dev = (case skb (priv dev) of
                           None \<Rightarrow> dev
                         | Some s \<Rightarrow>
                             let f = skb_data s;
                                 dev = dev\<lparr>stats := (stats dev)
                                   \<lparr>tx_bytes := tx_bytes (stats dev) + ucast (can_dlc f)\<rparr>\<rparr>;
                                 dev = dev\<lparr>stats := (stats dev)
                                   \<lparr>tx_packets := tx_packets (stats dev) + 1\<rparr>\<rparr>
                             in can_echo_skb s dev);
                  dev = dev\<lparr>priv := (priv dev)\<lparr>skb := None\<rparr>\<rparr>
              in netif_wake_queue dev
         else dev)
      in if eflg (priv dev) \<noteq> 0 then mcp2515_clear_eflg dev else mcp2515_read_flags dev)"

definition mcp2515_clear_eflg_complete :: "net_device \<Rightarrow> net_device" where
  "mcp2515_clear_eflg_complete dev =
     (let dev = (if eflg (priv dev) AND (EFLG_RX0OVR OR EFLG_RX1OVR) \<noteq> 0
                 then dev\<lparr>stats := (stats dev)
                            \<lparr>rx_over_errors := rx_over_errors (stats dev) + 1\<rparr>\<rparr>
                 else dev)
      in mcp2515_read_flags dev)"

definition mcp2515_load_txb0_complete :: "net_device \<Rightarrow> net_device" where
  "mcp2515_load_txb0_complete dev = mcp2515_rts_txb0 dev"

definition mcp2515_rts_txb0_complete :: "net_device \<Rightarrow> net_device" where
  "mcp2515_rts_txb0_complete dev = mcp2515_read_flags dev"

subsection \<open>The two producers (lines 575 to 621)\<close>

definition mcp2515_interrupt :: "net_device \<Rightarrow> irqreturn \<times> net_device" where
  "mcp2515_interrupt dev =
     (if busy (priv dev)
      then (IRQ_HANDLED, dev\<lparr>priv := (priv dev)\<lparr>interrupt := True\<rparr>\<rparr>)
      else let dev = dev\<lparr>priv := (priv dev)\<lparr>busy := True\<rparr>\<rparr>
           in (IRQ_HANDLED, mcp2515_read_flags dev))"

definition mcp2515_start_xmit :: "sk_buff \<Rightarrow> net_device \<Rightarrow> fault + (netdev_tx \<times> net_device)" where
  "mcp2515_start_xmit s dev =
     (case can_dropped_invalid_skb dev s of
        (True, dev) \<Rightarrow> Inr (NETDEV_TX_OK, dev)
      | (False, dev) \<Rightarrow>
          let dev = netif_stop_queue dev;
              dev = dev\<lparr>priv := (priv dev)\<lparr>skb := Some s\<rparr>\<rparr>
          in if busy (priv dev)
             then Inr (NETDEV_TX_OK, dev\<lparr>priv := (priv dev)\<lparr>transmit := True\<rparr>\<rparr>)
             else let dev = dev\<lparr>priv := (priv dev)\<lparr>busy := True\<rparr>\<rparr>
                  in case mcp2515_load_txb0 (Some s) dev of
                       Inl f \<Rightarrow> Inl f
                     | Inr dev \<Rightarrow> Inr (NETDEV_TX_OK, dev))"

section \<open>The driver in its environment\<close>

text \<open>
  The transport completes the oldest outstanding message: it stores the reply in the
  receive buffer, \<open>transfer.len\<close> bytes at most, and calls \<open>message.complete\<close>. With
  nothing outstanding there is nothing to complete.
\<close>

definition run_callback :: "callback \<Rightarrow> net_device \<Rightarrow> fault + net_device" where
  "run_callback cb dev =
     (case cb of
        Read_flags_complete \<Rightarrow> mcp2515_read_flags_complete dev
      | Read_rxb0_complete \<Rightarrow> mcp2515_read_rxb0_complete dev
      | Read_rxb1_complete \<Rightarrow> mcp2515_read_rxb1_complete dev
      | Clear_canintf_complete \<Rightarrow> Inr (mcp2515_clear_canintf_complete dev)
      | Clear_eflg_complete \<Rightarrow> Inr (mcp2515_clear_eflg_complete dev)
      | Load_txb0_complete \<Rightarrow> Inr (mcp2515_load_txb0_complete dev)
      | Rts_txb0_complete \<Rightarrow> Inr (mcp2515_rts_txb0_complete dev))"

definition spi_complete :: "u8 list \<Rightarrow> net_device \<Rightarrow> fault + net_device" where
  "spi_complete reply dev =
     (case spi_pending dev of
        [] \<Rightarrow> Inr dev
      | m # ms \<Rightarrow>
          let got = take (transfer_len (priv dev)) reply;
              dev = dev\<lparr>spi_pending := ms,
                        priv := (priv dev)\<lparr>rx_buf := got @ drop (length got) (rx_buf (priv dev))\<rparr>\<rparr>
          in case message_complete (priv dev) of
               None \<Rightarrow> Inl Null_pointer_dereference
             | Some cb \<Rightarrow> run_callback cb dev)"

text \<open>
  What can happen to the driver: the interrupt line fires, the upper layer submits a
  socket buffer, the transport completes the outstanding message with a reply, or the
  environment changes what \<open>spi_async\<close> and \<open>alloc_can_skb\<close> will answer.
\<close>

datatype event =
  Interrupt
  | Start_xmit sk_buff
  | Spi_complete "u8 list"
  | Environment int bool

fun step :: "event \<Rightarrow> net_device \<Rightarrow> fault + net_device" where
  "step Interrupt dev = Inr (snd (mcp2515_interrupt dev))"
| "step (Start_xmit s) dev =
     (case mcp2515_start_xmit s dev of Inl f \<Rightarrow> Inl f | Inr (r, dev') \<Rightarrow> Inr dev')"
| "step (Spi_complete reply) dev = spi_complete reply dev"
| "step (Environment r a) dev = Inr (dev\<lparr>spi_async_ret := r, alloc_ok := a\<rparr>)"

fun exec :: "event list \<Rightarrow> net_device \<Rightarrow> fault + net_device" where
  "exec [] dev = Inr dev"
| "exec (e # es) dev = (case step e dev of Inl f \<Rightarrow> Inl f | Inr dev' \<Rightarrow> exec es dev')"

text \<open>
  The device after \<open>alloc_candev\<close> and \<open>mcp2515_open\<close>: the private data is zeroed, the
  queue is awake, nothing is outstanding.
\<close>

definition priv_init :: mcp2515_priv where
  "priv_init = \<lparr>canintf = 0, eflg = 0, skb = None, busy = False, interrupt = False,
                transmit = False, transfer_len = 0, message_complete = None,
                rx_buf = replicate 14 0, tx_buf = replicate 14 0\<rparr>"

definition stats_init :: net_device_stats where
  "stats_init = \<lparr>rx_packets = 0, tx_packets = 0, rx_bytes = 0, tx_bytes = 0,
                 rx_dropped = 0, tx_dropped = 0, rx_over_errors = 0\<rparr>"

definition dev_init :: net_device where
  "dev_init = \<lparr>priv = priv_init, stats = stats_init, queue_stopped = False, wake_calls = 0,
               netif_rx_log = [], echo_log = [], err_log = [], spi_pending = [],
               spi_calls = 0, spi_async_ret = 0, alloc_ok = True\<rparr>"

section \<open>Vocabulary of the properties\<close>

text \<open>
  Between \<open>dev\<close> and \<open>dev'\<close> the command \<open>bytes\<close> with completion callback \<open>cb\<close>
  was issued: \<open>spi_async\<close> was called once, on a message of these bytes with this
  callback; the transport either accepted it, and it is the newest outstanding message, or
  refused it, and the refusal is logged.
\<close>

definition issued :: "net_device \<Rightarrow> net_device \<Rightarrow> u8 list \<Rightarrow> callback \<Rightarrow> bool" where
  "issued dev dev' bytes cb \<longleftrightarrow>
     spi_calls dev' = spi_calls dev + 1 \<and>
     message_complete (priv dev') = Some cb \<and>
     transfer_len (priv dev') = length bytes \<and>
     take (length bytes) (tx_buf (priv dev')) = bytes \<and>
     (if spi_async_ret dev = 0
      then spi_pending dev' = spi_pending dev @ [bytes] \<and> err_log dev' = err_log dev
      else spi_pending dev' = spi_pending dev \<and> err_log dev' = err_log dev @ [spi_async_ret dev])"

text \<open>A device whose error snapshot has both receive overflow bits set.\<close>

definition dev_both_overflows :: net_device where
  "dev_both_overflows = dev_init\<lparr>priv := priv_init\<lparr>eflg := 0xC0\<rparr>\<rparr>"

text \<open>
  The bytes that \<open>mcp2515_set_txbuf\<close> sets for a socket buffer: what it writes into a
  zeroed buffer, up to the count it returns.
\<close>

definition txb0_bytes :: "sk_buff \<Rightarrow> u8 list" where
  "txb0_bytes s =
     (case mcp2515_set_txbuf (replicate 13 0) (Some s) of
        Inl _ \<Rightarrow> []
      | Inr (rest, n) \<Rightarrow> take n rest)"

text \<open>
  A socket buffer that \<open>can_dropped_invalid_skb\<close> lets through, with the 8 byte array
  of its frame.
\<close>

definition accepted_skb :: "sk_buff \<Rightarrow> bool" where
  "accepted_skb s \<longleftrightarrow>
     skb_len s = 16 \<and> can_dlc (skb_data s) \<le> 8 \<and> length (data (skb_data s)) = 8"

text \<open>
  Between \<open>d\<close> and \<open>d'\<close> \<open>spi_async\<close> was called once and \<open>busy\<close> was not touched:
  at most one message joined the outstanding ones.
\<close>

definition one_issue :: "net_device \<Rightarrow> net_device \<Rightarrow> bool" where
  "one_issue d d' \<longleftrightarrow>
     spi_calls d' = Suc (spi_calls d) \<and> busy (priv d') = busy (priv d) \<and>
     message_complete (priv d') \<noteq> None \<and>
     (spi_pending d' = spi_pending d \<or>
      spi_pending d' \<noteq> [] \<and> butlast (spi_pending d') = spi_pending d)"

text \<open>Between \<open>d\<close> and \<open>d'\<close> nothing was issued and \<open>busy\<close> is clear.\<close>

definition went_idle :: "net_device \<Rightarrow> net_device \<Rightarrow> bool" where
  "went_idle d d' \<longleftrightarrow>
     spi_calls d' = spi_calls d \<and> spi_pending d' = spi_pending d \<and> \<not> busy (priv d')"

text \<open>The two producers, and the completion of the outstanding message.\<close>

fun producer :: "event \<Rightarrow> bool" where
  "producer Interrupt = True"
| "producer (Start_xmit s) = True"
| "producer e = False"

fun completion :: "event \<Rightarrow> bool" where
  "completion (Spi_complete reply) = True"
| "completion e = False"

text \<open>
  The invariant of the command chain: at most one message is outstanding, and while one
  is, \<open>busy\<close> is set and \<open>message.complete\<close> points to a callback.
\<close>

definition chain_inv :: "net_device \<Rightarrow> bool" where
  "chain_inv d \<longleftrightarrow>
     length (spi_pending d) \<le> 1 \<and>
     (spi_pending d = [] \<or> busy (priv d) \<and> message_complete (priv d) \<noteq> None)"

text \<open>A standard frame with identifier 0x123 and three bytes of payload, as submitted.\<close>

definition skb_123 :: sk_buff where
  "skb_123 = \<lparr>skb_len = 16, skb_data = \<lparr>can_id = 0x123, can_dlc = 3, data = [1, 2, 3, 0, 0, 0, 0, 0]\<rparr>\<rparr>"

text \<open>
  A device whose status snapshot has the transmit-complete bit while the transmit slot is
  empty and the queue is stopped.
\<close>

definition dev_tx_flag_empty_slot :: net_device where
  "dev_tx_flag_empty_slot = dev_init\<lparr>priv := priv_init\<lparr>canintf := 0x04\<rparr>, queue_stopped := True\<rparr>"

text \<open>
  Two runs from the initial device. In the first the interrupt fires, a frame is submitted
  while the flags read is outstanding, and the flags read completes with no status bit.
  In the second only the interrupt fires before the flags read completes.
\<close>

definition dev_irq_xmit :: net_device where
  "dev_irq_xmit = projr (exec [Interrupt, Start_xmit skb_123] dev_init)"

definition dev_irq_xmit_next :: net_device where
  "dev_irq_xmit_next = projr (step (Spi_complete [0, 0, 0, 0]) dev_irq_xmit)"

definition dev_irq :: net_device where
  "dev_irq = projr (exec [Interrupt] dev_init)"

definition dev_irq_next :: net_device where
  "dev_irq_next = projr (step (Spi_complete [0, 0, 0, 0]) dev_irq)"

text \<open>The three pending-work flags are the same in \<open>dev\<close> and \<open>dev'\<close>.\<close>

definition flags_kept :: "net_device \<Rightarrow> net_device \<Rightarrow> bool" where
  "flags_kept dev dev' \<longleftrightarrow>
     busy (priv dev') = busy (priv dev) \<and> interrupt (priv dev') = interrupt (priv dev) \<and>
     transmit (priv dev') = transmit (priv dev)"

text \<open>
  A busy device whose receive buffer holds a flags reply with the error and
  transmit-complete status bits, and a busy device with a submitted frame pending.
\<close>

definition dev_status_24 :: net_device where
  "dev_status_24 =
     dev_init\<lparr>priv := priv_init\<lparr>busy := True, rx_buf := [0, 0, 0x24, 0] @ replicate 10 0\<rparr>\<rparr>"

definition dev_transmit_pending :: net_device where
  "dev_transmit_pending =
     dev_init\<lparr>priv := priv_init\<lparr>busy := True, transmit := True, skb := Some skb_123\<rparr>,
              queue_stopped := True\<rparr>"

text \<open>
  Between \<open>dev\<close> and \<open>dev'\<close> one received frame was dropped: the drop counter grew by
  one, the receive counters did not move, and nothing was handed to \<open>netif_rx\<close>.
\<close>

definition frame_dropped :: "net_device \<Rightarrow> net_device \<Rightarrow> bool" where
  "frame_dropped dev dev' \<longleftrightarrow>
     rx_dropped (stats dev') = rx_dropped (stats dev) + 1 \<and>
     rx_packets (stats dev') = rx_packets (stats dev) \<and>
     rx_bytes (stats dev') = rx_bytes (stats dev) \<and>
     netif_rx_log dev' = netif_rx_log dev"

text \<open>
  Busy devices on which the next \<open>alloc_can_skb\<close> fails: one whose status snapshot has
  both receive bits, one with no receive bit and nothing pending, and one with a submitted
  frame pending.
\<close>

definition dev_no_memory :: net_device where
  "dev_no_memory = dev_init\<lparr>priv := priv_init\<lparr>busy := True\<rparr>, alloc_ok := False\<rparr>"

definition dev_no_memory_rx1 :: net_device where
  "dev_no_memory_rx1 =
     dev_init\<lparr>priv := priv_init\<lparr>busy := True, canintf := 0x03\<rparr>, alloc_ok := False\<rparr>"

definition dev_no_memory_tx :: net_device where
  "dev_no_memory_tx = dev_transmit_pending\<lparr>alloc_ok := False\<rparr>"

text \<open>
  The idle device after the submission of the frame \<open>skb_123\<close>, and a busy device with an
  empty transmit slot before and after the same submission.
\<close>

definition dev_xmit_idle :: net_device where
  "dev_xmit_idle = snd (projr (mcp2515_start_xmit skb_123 dev_init))"

definition dev_busy :: net_device where
  "dev_busy = dev_init\<lparr>priv := priv_init\<lparr>busy := True\<rparr>\<rparr>"

definition dev_xmit_busy :: net_device where
  "dev_xmit_busy = snd (projr (mcp2515_start_xmit skb_123 dev_busy))"

text \<open>A socket buffer whose length code is 9.\<close>

definition skb_dlc_9 :: sk_buff where
  "skb_dlc_9 =
     \<lparr>skb_len = 16, skb_data = \<lparr>can_id = 0x123, can_dlc = 9, data = replicate 8 0\<rparr>\<rparr>"

text \<open>
  A valid frame: a length of 0 to 8 with the 8 byte payload array, no error flag, and an
  identifier whose width fits the extended flag: 29 bits when it is set, 11 bits when it
  is clear.
\<close>

definition valid_frame :: "can_frame \<Rightarrow> bool" where
  "valid_frame f \<longleftrightarrow>
     can_dlc f \<le> 8 \<and> length (data f) = 8 \<and> can_id f AND CAN_ERR_FLAG = 0 \<and>
     (if can_id f AND CAN_EFF_FLAG \<noteq> 0 then True
      else can_id f AND CAN_EFF_MASK AND NOT CAN_SFF_MASK = 0)"

text \<open>
  A standard remote-request frame with identifier 0x123, and an extended remote-request
  frame with identifier 0x1ABCDEF1, as submitted.
\<close>

definition skb_rtr_123 :: sk_buff where
  "skb_rtr_123 =
     \<lparr>skb_len = 16,
      skb_data = \<lparr>can_id = 0x40000123, can_dlc = 2, data = [1, 2, 0, 0, 0, 0, 0, 0]\<rparr>\<rparr>"

definition skb_ext_rtr :: sk_buff where
  "skb_ext_rtr =
     \<lparr>skb_len = 16,
      skb_data = \<lparr>can_id = 0xDABCDEF1, can_dlc = 8, data = [1, 2, 3, 4, 5, 6, 7, 8]\<rparr>\<rparr>"

text \<open>
  Between \<open>dev\<close> and \<open>dev'\<close> nothing was reported about a transmission: the transmit
  counters, the echo, the transmit slot and the queue are as before.
\<close>

definition nothing_reported :: "net_device \<Rightarrow> net_device \<Rightarrow> bool" where
  "nothing_reported dev dev' \<longleftrightarrow>
     tx_packets (stats dev') = tx_packets (stats dev) \<and>
     tx_bytes (stats dev') = tx_bytes (stats dev) \<and>
     echo_log dev' = echo_log dev \<and> skb (priv dev') = skb (priv dev) \<and>
     queue_stopped dev' = queue_stopped dev \<and> wake_calls dev' = wake_calls dev"

text \<open>
  Between \<open>dev\<close> and \<open>dev'\<close> the transmission of the socket buffer \<open>s\<close> was reported
  once: one packet and its length in bytes are counted, the buffer is echoed, the slot is
  empty and the queue was woken.
\<close>

definition transmit_reported :: "sk_buff \<Rightarrow> net_device \<Rightarrow> net_device \<Rightarrow> bool" where
  "transmit_reported s dev dev' \<longleftrightarrow>
     tx_packets (stats dev') = tx_packets (stats dev) + 1 \<and>
     tx_bytes (stats dev') = tx_bytes (stats dev) + ucast (can_dlc (skb_data s)) \<and>
     echo_log dev' = echo_log dev @ [s] \<and> skb (priv dev') = None \<and>
     \<not> queue_stopped dev' \<and> wake_calls dev' = wake_calls dev + 1"

text \<open>
  A run in which the frame \<open>skb_123\<close> is submitted, loaded and sent, and the flags read
  that follows is answered with the transmit-complete bit together with the bit of
  receive buffer 0; then receive buffer 0 is read.
\<close>

definition dev_sent_and_received :: net_device where
  "dev_sent_and_received =
     projr (exec [Start_xmit skb_123, Spi_complete [], Spi_complete [],
                  Spi_complete [0, 0, 0x05, 0]] dev_init)"

definition dev_sent_and_received_next :: net_device where
  "dev_sent_and_received_next =
     projr (step (Spi_complete [0, 0x24, 0x60, 0, 0, 3, 1, 2, 3, 0, 0, 0, 0, 0])
              dev_sent_and_received)"

text \<open>
  The same run with a flags reply that has the transmit-complete bit only, up to the
  moment the reply is in the receive buffer, and up to the issue of the clear-status
  command.
\<close>

definition dev_sent_reply :: net_device where
  "dev_sent_reply =
     (let d = projr (exec [Start_xmit skb_123, Spi_complete [], Spi_complete []] dev_init)
      in d\<lparr>spi_pending := [], priv := (priv d)\<lparr>rx_buf := [0, 0, 0x04, 0] @ replicate 10 0\<rparr>\<rparr>)"

definition dev_sent_clearing :: net_device where
  "dev_sent_clearing =
     projr (exec [Start_xmit skb_123, Spi_complete [], Spi_complete [],
                  Spi_complete [0, 0, 0x04, 0]] dev_init)"

definition dev_sent_reported :: net_device where
  "dev_sent_reported = projr (step (Spi_complete []) dev_sent_clearing)"

text \<open>
  The handlers cut at their lock boundaries. A task is a thread of control of the driver
  at the start of a block: at the entry of a handler, at one of the four
  \<open>spin_lock\<close> calls, or just behind a \<open>spin_unlock\<close> with one call left to make.
\<close>

datatype task =
  At_irq_lock
  | At_xmit_start sk_buff
  | At_xmit_lock sk_buff
  | At_callback callback
  | At_flags_lock
  | At_transmit_or_flags_lock
  | Do_load_skb sk_buff
  | Do_load_slot
  | Do_read_flags

text \<open>
  One block of a task: the code up to the next lock boundary or to the end of the
  handler, run without interruption, and the task that is left to run, if any.
  \<^item> \<open>At_irq_lock\<close>: lines 580 to 587 of \<open>mcp2515_interrupt\<close>;
  \<^item> \<open>At_xmit_start\<close>: lines 603 to 607 of \<open>mcp2515_start_xmit\<close>, \<open>At_xmit_lock\<close>:
    lines 609 to 616;
  \<^item> \<open>At_callback\<close>: a completion callback from its start; \<open>mcp2515_read_flags_complete\<close>
    up to line 402, the two receive-buffer completions up to the lock of
    \<open>mcp2515_transmit_or_read_flags\<close>, the other four to their end;
  \<^item> \<open>At_flags_lock\<close>: lines 403 to 415; \<open>At_transmit_or_flags_lock\<close>: lines 466 to 473;
  \<^item> \<open>Do_load_skb\<close>: line 618, \<open>Do_load_slot\<close>: lines 407 and 470, \<open>Do_read_flags\<close>:
    lines 411, 473 and 589.
\<close>

fun run_block :: "task \<Rightarrow> net_device \<Rightarrow> fault + (net_device \<times> task option)" where
  "run_block At_irq_lock dev =
     (if busy (priv dev)
      then Inr (dev\<lparr>priv := (priv dev)\<lparr>interrupt := True\<rparr>\<rparr>, None)
      else Inr (dev\<lparr>priv := (priv dev)\<lparr>busy := True\<rparr>\<rparr>, Some Do_read_flags))"
| "run_block (At_xmit_start s) dev =
     (case can_dropped_invalid_skb dev s of
        (True, dev) \<Rightarrow> Inr (dev, None)
      | (False, dev) \<Rightarrow>
          let dev = netif_stop_queue dev;
              dev = dev\<lparr>priv := (priv dev)\<lparr>skb := Some s\<rparr>\<rparr>
          in Inr (dev, Some (At_xmit_lock s)))"
| "run_block (At_xmit_lock s) dev =
     (if busy (priv dev)
      then Inr (dev\<lparr>priv := (priv dev)\<lparr>transmit := True\<rparr>\<rparr>, None)
      else Inr (dev\<lparr>priv := (priv dev)\<lparr>busy := True\<rparr>\<rparr>, Some (Do_load_skb s)))"
| "run_block (At_callback Read_flags_complete) dev =
     (let buf = rx_buf (priv dev);
          c = buf ! 2;
          dev = dev\<lparr>priv := (priv dev)\<lparr>canintf := c, eflg := buf ! 3\<rparr>\<rparr>
      in if c AND CANINTF_RX0IF \<noteq> 0 then Inr (mcp2515_read_rxb0 dev, None)
         else if c AND CANINTF_RX1IF \<noteq> 0 then Inr (mcp2515_read_rxb1 dev, None)
         else if c \<noteq> 0 then Inr (mcp2515_clear_canintf dev, None)
         else Inr (dev, Some At_flags_lock))"
| "run_block At_flags_lock dev =
     (if transmit (priv dev)
      then Inr (dev\<lparr>priv := (priv dev)\<lparr>transmit := False\<rparr>\<rparr>, Some Do_load_slot)
      else if interrupt (priv dev)
      then Inr (dev\<lparr>priv := (priv dev)\<lparr>interrupt := False\<rparr>\<rparr>, Some Do_read_flags)
      else Inr (dev\<lparr>priv := (priv dev)\<lparr>busy := False\<rparr>\<rparr>, None))"
| "run_block (At_callback Read_rxb0_complete) dev =
     (let dev = mcp2515_read_rxb_complete dev
      in if canintf (priv dev) AND CANINTF_RX1IF \<noteq> 0 then Inr (mcp2515_read_rxb1 dev, None)
         else Inr (dev, Some At_transmit_or_flags_lock))"
| "run_block (At_callback Read_rxb1_complete) dev =
     Inr (mcp2515_read_rxb_complete dev, Some At_transmit_or_flags_lock)"
| "run_block At_transmit_or_flags_lock dev =
     (if transmit (priv dev)
      then Inr (dev\<lparr>priv := (priv dev)\<lparr>transmit := False\<rparr>\<rparr>, Some Do_load_slot)
      else Inr (dev, Some Do_read_flags))"
| "run_block (At_callback Clear_canintf_complete) dev =
     Inr (mcp2515_clear_canintf_complete dev, None)"
| "run_block (At_callback Clear_eflg_complete) dev =
     Inr (mcp2515_clear_eflg_complete dev, None)"
| "run_block (At_callback Load_txb0_complete) dev =
     Inr (mcp2515_load_txb0_complete dev, None)"
| "run_block (At_callback Rts_txb0_complete) dev =
     Inr (mcp2515_rts_txb0_complete dev, None)"
| "run_block (Do_load_skb s) dev =
     (case mcp2515_load_txb0 (Some s) dev of Inl f \<Rightarrow> Inl f | Inr dev \<Rightarrow> Inr (dev, None))"
| "run_block Do_load_slot dev =
     (case mcp2515_load_txb0 (skb (priv dev)) dev of
        Inl f \<Rightarrow> Inl f
      | Inr dev \<Rightarrow> Inr (dev, None))"
| "run_block Do_read_flags dev = Inr (mcp2515_read_flags dev, None)"

text \<open>A task run block after block to its end, nothing else running in between.\<close>

fun run_blocks :: "nat \<Rightarrow> task \<Rightarrow> net_device \<Rightarrow> fault + net_device" where
  "run_blocks 0 t dev = Inr dev"
| "run_blocks (Suc n) t dev =
     (case run_block t dev of
        Inl f \<Rightarrow> Inl f
      | Inr (dev', None) \<Rightarrow> Inr dev'
      | Inr (dev', Some t') \<Rightarrow> run_blocks n t' dev')"

text \<open>
  The driver with its threads of control: the device and the tasks that have a block left
  to run.
\<close>

record machine =
  device :: net_device
  tasks :: "task list"

text \<open>
  What can happen, block by block: the interrupt line fires and the handler is entered;
  the upper layer enters \<open>mcp2515_start_xmit\<close>; the transport completes the oldest
  outstanding message, stores the reply and enters \<open>message.complete\<close>; one of the
  tasks runs its next block; the environment changes its answers.
\<close>

datatype activity =
  Irq_raised
  | Frame_submitted sk_buff
  | Transfer_done "u8 list"
  | Task_runs nat
  | Environment_changes int bool

fun act :: "activity \<Rightarrow> machine \<Rightarrow> fault + machine" where
  "act Irq_raised m = Inr (m\<lparr>tasks := tasks m @ [At_irq_lock]\<rparr>)"
| "act (Frame_submitted s) m = Inr (m\<lparr>tasks := tasks m @ [At_xmit_start s]\<rparr>)"
| "act (Transfer_done reply) m =
     (let dev = device m
      in case spi_pending dev of
           [] \<Rightarrow> Inr m
         | msg # msgs \<Rightarrow>
             let got = take (transfer_len (priv dev)) reply;
                 dev = dev\<lparr>spi_pending := msgs,
                           priv := (priv dev)
                             \<lparr>rx_buf := got @ drop (length got) (rx_buf (priv dev))\<rparr>\<rparr>
             in case message_complete (priv dev) of
                  None \<Rightarrow> Inl Null_pointer_dereference
                | Some cb \<Rightarrow> Inr (m\<lparr>device := dev, tasks := tasks m @ [At_callback cb]\<rparr>))"
| "act (Task_runs i) m =
     (if length (tasks m) \<le> i then Inr m
      else case run_block (tasks m ! i) (device m) of
             Inl f \<Rightarrow> Inl f
           | Inr (dev, None) \<Rightarrow>
               Inr (m\<lparr>device := dev, tasks := take i (tasks m) @ drop (Suc i) (tasks m)\<rparr>)
           | Inr (dev, Some t) \<Rightarrow> Inr (m\<lparr>device := dev, tasks := (tasks m)[i := t]\<rparr>))"
| "act (Environment_changes r a) m =
     Inr (m\<lparr>device := (device m)\<lparr>spi_async_ret := r, alloc_ok := a\<rparr>\<rparr>)"

fun acts :: "activity list \<Rightarrow> machine \<Rightarrow> fault + machine" where
  "acts [] m = Inr m"
| "acts (a # as) m = (case act a m of Inl f \<Rightarrow> Inl f | Inr m' \<Rightarrow> acts as m')"

definition machine_init :: machine where
  "machine_init = \<lparr>device = dev_init, tasks = []\<rparr>"

text \<open>
  A task holds the chain when it runs on behalf of the one command chain: it is a
  completion callback or comes from one, or it comes from the lock section of a producer
  that set \<open>busy\<close>. The producers before and in their lock sections do not.
\<close>

fun holds_chain :: "task \<Rightarrow> bool" where
  "holds_chain At_irq_lock = False"
| "holds_chain (At_xmit_start s) = False"
| "holds_chain (At_xmit_lock s) = False"
| "holds_chain t = True"

fun producer_lock :: "task \<Rightarrow> bool" where
  "producer_lock At_irq_lock = True"
| "producer_lock (At_xmit_lock s) = True"
| "producer_lock t = False"

text \<open>
  The commands outstanding on the transport together with the tasks that hold the chain
  and will issue the next one.
\<close>

definition in_flight :: "machine \<Rightarrow> nat" where
  "in_flight m = length (spi_pending (device m)) + length (filter holds_chain (tasks m))"

text \<open>
  The invariant of the block-wise runs: at most one command is in flight, \<open>busy\<close> is set
  while one is, and an outstanding message has its completion callback.
\<close>

definition machine_inv :: "machine \<Rightarrow> bool" where
  "machine_inv m \<longleftrightarrow>
     in_flight m \<le> 1 \<and> (in_flight m = 0 \<or> busy (priv (device m))) \<and>
     (spi_pending (device m) = [] \<or> message_complete (priv (device m)) \<noteq> None)"

text \<open>A block that issues nothing and leaves \<open>busy\<close> and the callback as they are.\<close>

definition chain_kept :: "net_device \<Rightarrow> net_device \<Rightarrow> bool" where
  "chain_kept d d' \<longleftrightarrow>
     spi_pending d' = spi_pending d \<and> spi_calls d' = spi_calls d \<and>
     busy (priv d') = busy (priv d) \<and>
     message_complete (priv d') = message_complete (priv d)"

text \<open>
  What one activity may do to the chain: call \<open>spi_async\<close> at most once, and only in a
  block of a task that holds the chain; raise the number of commands in flight only in
  the lock section of a producer that finds \<open>busy\<close> clear and sets it; clear \<open>busy\<close> only
  in the lock section of \<open>mcp2515_read_flags_complete\<close>, with nothing issued and nothing in
  flight afterwards.
\<close>

definition act_ok :: "activity \<Rightarrow> machine \<Rightarrow> machine \<Rightarrow> bool" where
  "act_ok a m m' \<longleftrightarrow>
     (spi_calls (device m') \<noteq> spi_calls (device m) \<longrightarrow>
        spi_calls (device m') = spi_calls (device m) + 1 \<and>
        (\<exists>i. a = Task_runs i \<and> i < length (tasks m) \<and> holds_chain (tasks m ! i))) \<and>
     (in_flight m < in_flight m' \<longrightarrow>
        \<not> busy (priv (device m)) \<and> busy (priv (device m')) \<and>
        (\<exists>i. a = Task_runs i \<and> i < length (tasks m) \<and> producer_lock (tasks m ! i))) \<and>
     (busy (priv (device m)) \<and> \<not> busy (priv (device m')) \<longrightarrow>
        spi_calls (device m') = spi_calls (device m) \<and> in_flight m' = 0 \<and>
        (\<exists>i. a = Task_runs i \<and> i < length (tasks m) \<and> tasks m ! i = At_flags_lock))"

text \<open>The activity is a block of a task with the given property.\<close>

fun runs_task :: "(task \<Rightarrow> bool) \<Rightarrow> activity \<Rightarrow> machine \<Rightarrow> bool" where
  "runs_task P (Task_runs i) m = (i < length (tasks m) \<and> P (tasks m ! i))"
| "runs_task P a m = False"

fun is_flags_lock :: "task \<Rightarrow> bool" where
  "is_flags_lock At_flags_lock = True"
| "is_flags_lock t = False"

text \<open>
  Three runs. In the first an interrupt and a submission race: the submission stores its
  frame, the interrupt handler takes the lock first and sets \<open>busy\<close>, the submission then
  finds \<open>busy\<close> set and leaves \<open>transmit\<close> pending, and the interrupt handler is left with
  its flags read to issue. The second is an interrupt handler at its lock. The third is a
  flags read that found nothing, at the lock of its completion.
\<close>

definition machine_racing :: machine where
  "machine_racing =
     projr (acts [Irq_raised, Frame_submitted skb_123, Task_runs 1, Task_runs 0, Task_runs 1]
              machine_init)"

definition machine_racing_next :: machine where
  "machine_racing_next = projr (act (Task_runs 0) machine_racing)"

definition machine_irq :: machine where
  "machine_irq = projr (acts [Irq_raised] machine_init)"

definition machine_irq_next :: machine where
  "machine_irq_next = projr (act (Task_runs 0) machine_irq)"

definition machine_ending :: machine where
  "machine_ending =
     projr (acts [Irq_raised, Task_runs 0, Task_runs 0, Transfer_done [0, 0, 0, 0], Task_runs 0]
              machine_init)"

definition machine_ending_next :: machine where
  "machine_ending_next = projr (act (Task_runs 0) machine_ending)"

section \<open>Basic facts about issuing commands\<close>

lemma take4_upd:
  "4 \<le> length xs \<Longrightarrow>
     take (Suc (Suc (Suc (Suc 0)))) (xs[0 := a, Suc 0 := b, 2 := c, 3 := d]) = [a, b, c, d]"
  "4 \<le> length xs \<Longrightarrow> take 4 (xs[0 := a, Suc 0 := b, 2 := c, 3 := d]) = [a, b, c, d]"
  by (cases xs; cases "tl xs"; cases "tl (tl xs)"; cases "tl (tl (tl xs))"; auto)+

lemma and_or_nz: "(x AND (a OR b) \<noteq> 0) = (x AND a \<noteq> 0 \<or> x AND b \<noteq> 0)" for x :: u8
  by (simp add: bit.conj_disj_distrib or_eq_0_iff)

lemma spi_async_unchanged [simp]:
  "priv (mcp2515_spi_async d) = priv d"
  "stats (mcp2515_spi_async d) = stats d"
  "queue_stopped (mcp2515_spi_async d) = queue_stopped d"
  "wake_calls (mcp2515_spi_async d) = wake_calls d"
  "netif_rx_log (mcp2515_spi_async d) = netif_rx_log d"
  "echo_log (mcp2515_spi_async d) = echo_log d"
  "spi_async_ret (mcp2515_spi_async d) = spi_async_ret d"
  "alloc_ok (mcp2515_spi_async d) = alloc_ok d"
  "spi_calls (mcp2515_spi_async d) = Suc (spi_calls d)"
  by (simp_all add: mcp2515_spi_async_def Let_def)

lemma spi_async_pending:
  "spi_pending (mcp2515_spi_async d) =
     (if spi_async_ret d = 0
      then spi_pending d @ [take (transfer_len (priv d)) (tx_buf (priv d))]
      else spi_pending d)"
  "err_log (mcp2515_spi_async d) =
     (if spi_async_ret d = 0 then err_log d else err_log d @ [spi_async_ret d])"
  by (simp_all add: mcp2515_spi_async_def Let_def)

lemma issued_from:
  assumes "issued d1 d' bytes cb"
    and "spi_calls d1 = spi_calls d" and "spi_pending d1 = spi_pending d"
    and "err_log d1 = err_log d" and "spi_async_ret d1 = spi_async_ret d"
  shows "issued d d' bytes cb"
  using assms by (simp add: issued_def)

lemma read_flags_issued:
  assumes "4 \<le> length (tx_buf (priv d))"
  shows "issued d (mcp2515_read_flags d) [3, 0x2c, 0, 0] Read_flags_complete"
  using assms
  by (simp add: issued_def mcp2515_read_flags_def Let_def spi_async_pending take4_upd)

lemma read_flags_unchanged [simp]:
  "stats (mcp2515_read_flags d) = stats d"
  "queue_stopped (mcp2515_read_flags d) = queue_stopped d"
  "wake_calls (mcp2515_read_flags d) = wake_calls d"
  "netif_rx_log (mcp2515_read_flags d) = netif_rx_log d"
  "echo_log (mcp2515_read_flags d) = echo_log d"
  "spi_async_ret (mcp2515_read_flags d) = spi_async_ret d"
  "alloc_ok (mcp2515_read_flags d) = alloc_ok d"
  "canintf (priv (mcp2515_read_flags d)) = canintf (priv d)"
  "eflg (priv (mcp2515_read_flags d)) = eflg (priv d)"
  "skb (priv (mcp2515_read_flags d)) = skb (priv d)"
  "busy (priv (mcp2515_read_flags d)) = busy (priv d)"
  "interrupt (priv (mcp2515_read_flags d)) = interrupt (priv d)"
  "transmit (priv (mcp2515_read_flags d)) = transmit (priv d)"
  "rx_buf (priv (mcp2515_read_flags d)) = rx_buf (priv d)"
  by (simp_all add: mcp2515_read_flags_def Let_def)

lemmas cmd_defs = mcp2515_read_flags_def mcp2515_read_rxb_def mcp2515_read_rxb0_def
  mcp2515_read_rxb1_def mcp2515_clear_canintf_def mcp2515_clear_eflg_def mcp2515_rts_txb0_def

lemma take5_upd:
  "5 \<le> length xs \<Longrightarrow>
     take 5 (xs[0 := a, Suc 0 := b, 2 := c, 3 := d, 4 := e]) = [a, b, c, d, e]"
  by (cases xs; cases "tl xs"; cases "tl (tl xs)"; cases "tl (tl (tl xs))";
      cases "tl (tl (tl (tl xs)))"; auto)

lemma read_rxb_issued:
  "issued d (mcp2515_read_rxb d i cb) (i # replicate 13 0) cb"
  by (simp add: issued_def mcp2515_read_rxb_def Let_def spi_async_pending
      numeral_eq_Suc)

lemma clear_canintf_issued:
  assumes "4 \<le> length (tx_buf (priv d))"
  shows "issued d (mcp2515_clear_canintf d)
           [5, 0x2c, canintf (priv d) AND NOT (CANINTF_RX0IF OR CANINTF_RX1IF), 0]
           Clear_canintf_complete"
  using assms
  by (simp add: issued_def mcp2515_clear_canintf_def Let_def spi_async_pending take4_upd)

lemma clear_eflg_issued:
  assumes "4 \<le> length (tx_buf (priv d))"
  shows "issued d (mcp2515_clear_eflg d) [5, 0x2d, eflg (priv d), 0] Clear_eflg_complete"
  using assms
  by (simp add: issued_def mcp2515_clear_eflg_def Let_def spi_async_pending take4_upd)

lemma rts_txb0_issued:
  assumes "1 \<le> length (tx_buf (priv d))"
  shows "issued d (mcp2515_rts_txb0 d) [0x81] Rts_txb0_complete"
  using assms
  by (cases "tx_buf (priv d)")
     (simp_all add: issued_def mcp2515_rts_txb0_def Let_def spi_async_pending)

lemma dlc_le8: "(w :: u8) \<le> 8 \<Longrightarrow> unat w \<le> 8"
  by (simp add: word_le_nat_alt)

lemma take_5_plus:
  "take (5 + n) (a # b # c # d # e # xs) = a # b # c # d # e # take n xs"
  by (simp add: numeral_eq_Suc)

lemma set_txbuf_ok:
  assumes "can_dlc (skb_data s) \<le> 8" and "length (data (skb_data s)) = 8"
    and "length buf = 13"
  shows "\<exists>rest. mcp2515_set_txbuf buf (Some s) = Inr (rest, 5 + unat (can_dlc (skb_data s))) \<and>
           length rest = 13 \<and>
           take (5 + unat (can_dlc (skb_data s))) rest = txb0_bytes s"
proof -
  let ?n = "unat (can_dlc (skb_data s))"
  have n: "?n \<le> 8" using assms(1) by (rule dlc_le8)
  show ?thesis
    using n assms(2,3)
    by (simp add: mcp2515_set_txbuf_def txb0_bytes_def Let_def take5_upd take_5_plus)
qed

lemma one_issue_cmds:
  "one_issue d (mcp2515_read_flags d)"
  "one_issue d (mcp2515_read_rxb0 d)"
  "one_issue d (mcp2515_read_rxb1 d)"
  "one_issue d (mcp2515_clear_canintf d)"
  "one_issue d (mcp2515_clear_eflg d)"
  "one_issue d (mcp2515_rts_txb0 d)"
  by (simp_all add: cmd_defs Let_def one_issue_def spi_async_pending)

lemma one_issue_from:
  "one_issue d1 d' \<Longrightarrow> spi_calls d1 = spi_calls d \<Longrightarrow> busy (priv d1) = busy (priv d) \<Longrightarrow>
   spi_pending d1 = spi_pending d \<Longrightarrow> one_issue d d'"
  by (simp add: one_issue_def)

lemma load_txb0_Inr:
  assumes "mcp2515_load_txb0 sk d = Inr d'"
  obtains rest n where
    "mcp2515_set_txbuf (drop 1 ((tx_buf (priv d))[0 := 0x40])) sk = Inr (rest, n)"
    "d' = mcp2515_spi_async
            (d\<lparr>priv := (priv d)\<lparr>tx_buf := take 1 ((tx_buf (priv d))[0 := 0x40]) @ rest,
                                   transfer_len := n + 1,
                                   message_complete := Some Load_txb0_complete\<rparr>\<rparr>)"
  using assms
  by (auto simp: mcp2515_load_txb0_def Let_def split: sum.splits prod.splits)

lemma one_issue_load_txb0:
  assumes "mcp2515_load_txb0 sk d = Inr d'"
  shows "one_issue d d'"
proof -
  from assms obtain rest n where
    "d' = mcp2515_spi_async
            (d\<lparr>priv := (priv d)\<lparr>tx_buf := take 1 ((tx_buf (priv d))[0 := 0x40]) @ rest,
                                   transfer_len := n + 1,
                                   message_complete := Some Load_txb0_complete\<rparr>\<rparr>)"
    by (rule load_txb0_Inr)
  then show ?thesis
    by (simp add: one_issue_def spi_async_pending)
qed

lemma load_txb0_None [simp]: "mcp2515_load_txb0 None d = Inl Null_pointer_dereference"
  by (simp add: mcp2515_load_txb0_def mcp2515_set_txbuf_def)

lemma load_txb0_ok:
  assumes "length (tx_buf (priv d)) = 14" and "accepted_skb s"
  shows "\<exists>d'. mcp2515_load_txb0 (Some s) d = Inr d' \<and>
           issued d d' (0x40 # txb0_bytes s) Load_txb0_complete \<and>
           stats d' = stats d \<and> queue_stopped d' = queue_stopped d \<and>
           wake_calls d' = wake_calls d \<and> netif_rx_log d' = netif_rx_log d \<and>
           echo_log d' = echo_log d \<and>
           skb (priv d') = skb (priv d) \<and> busy (priv d') = busy (priv d) \<and>
           interrupt (priv d') = interrupt (priv d) \<and> transmit (priv d') = transmit (priv d) \<and>
           canintf (priv d') = canintf (priv d) \<and> eflg (priv d') = eflg (priv d)"
proof -
  let ?buf = "(tx_buf (priv d))[0 := 0x40]"
  let ?n = "unat (can_dlc (skb_data s))"
  from assms have "length (drop 1 ?buf) = 13" by simp
  with assms(2) obtain rest where
    rest: "mcp2515_set_txbuf (drop 1 ?buf) (Some s) = Inr (rest, 5 + ?n)"
      "length rest = 13" "take (5 + ?n) rest = txb0_bytes s"
    using set_txbuf_ok [of s "drop 1 ?buf"] by (auto simp: accepted_skb_def)
  have hd: "take 1 ?buf = [0x40]"
    using assms(1) by (cases "tx_buf (priv d)") simp_all
  have "?n \<le> 8" using assms(2) by (simp add: accepted_skb_def dlc_le8)
  with rest(2) have "length (take (5 + ?n) rest) = 5 + ?n" by simp
  then have len: "length (txb0_bytes s) = 5 + ?n" by (simp only: rest(3))
  have "6 + ?n = Suc (5 + ?n)" by simp
  then have tk: "take (6 + ?n) (0x40 # rest) = 0x40 # txb0_bytes s"
    by (simp only: take_Suc_Cons rest(3))
  show ?thesis
    using rest(1) hd len tk
    by (simp add: mcp2515_load_txb0_def Let_def issued_def spi_async_pending)
qed

section \<open>Every handler issues at most one command\<close>

lemma read_rxb_complete_unchanged [simp]:
  "priv (mcp2515_read_rxb_complete d) = priv d"
  "spi_calls (mcp2515_read_rxb_complete d) = spi_calls d"
  "spi_pending (mcp2515_read_rxb_complete d) = spi_pending d"
  "err_log (mcp2515_read_rxb_complete d) = err_log d"
  "spi_async_ret (mcp2515_read_rxb_complete d) = spi_async_ret d"
  "queue_stopped (mcp2515_read_rxb_complete d) = queue_stopped d"
  "wake_calls (mcp2515_read_rxb_complete d) = wake_calls d"
  "echo_log (mcp2515_read_rxb_complete d) = echo_log d"
  by (simp_all add: mcp2515_read_rxb_complete_def netif_rx_def Let_def split: option.splits)

lemma read_flags_complete_chain:
  assumes "mcp2515_read_flags_complete d = Inr d'"
  shows "one_issue d d' \<or>
         went_idle d d' \<and> canintf (priv d') = 0 \<and> \<not> transmit (priv d) \<and> \<not> interrupt (priv d)"
proof -
  let ?c = "rx_buf (priv d) ! 2"
  let ?d1 = "d\<lparr>priv := (priv d)\<lparr>canintf := ?c, eflg := rx_buf (priv d) ! 3\<rparr>\<rparr>"
  consider (rx0) "?c AND CANINTF_RX0IF \<noteq> 0"
    | (rx1) "?c AND CANINTF_RX0IF = 0" "?c AND CANINTF_RX1IF \<noteq> 0"
    | (clr) "?c AND CANINTF_RX0IF = 0" "?c AND CANINTF_RX1IF = 0" "?c \<noteq> 0"
    | (tx) "?c = 0" "transmit (priv d)"
    | (irq) "?c = 0" "\<not> transmit (priv d)" "interrupt (priv d)"
    | (idle) "?c = 0" "\<not> transmit (priv d)" "\<not> interrupt (priv d)"
    by fastforce
  then show ?thesis
  proof cases
    case rx0
    then have "d' = mcp2515_read_rxb0 ?d1"
      using assms by (simp add: mcp2515_read_flags_complete_def Let_def)
    then show ?thesis using one_issue_cmds(2)[of ?d1] by (simp add: one_issue_def)
  next
    case rx1
    then have "d' = mcp2515_read_rxb1 ?d1"
      using assms by (simp add: mcp2515_read_flags_complete_def Let_def)
    then show ?thesis using one_issue_cmds(3)[of ?d1] by (simp add: one_issue_def)
  next
    case clr
    then have "d' = mcp2515_clear_canintf ?d1"
      using assms by (simp add: mcp2515_read_flags_complete_def Let_def)
    then show ?thesis using one_issue_cmds(4)[of ?d1] by (simp add: one_issue_def)
  next
    case tx
    let ?d2 = "?d1\<lparr>priv := (priv ?d1)\<lparr>transmit := False\<rparr>\<rparr>"
    from tx have "mcp2515_load_txb0 (skb (priv ?d2)) ?d2 = Inr d'"
      using assms by (simp add: mcp2515_read_flags_complete_def Let_def)
    then have "one_issue ?d2 d'" by (rule one_issue_load_txb0)
    then show ?thesis by (simp add: one_issue_def)
  next
    case irq
    let ?d2 = "?d1\<lparr>priv := (priv ?d1)\<lparr>interrupt := False\<rparr>\<rparr>"
    from irq have "d' = mcp2515_read_flags ?d2"
      using assms by (simp add: mcp2515_read_flags_complete_def Let_def)
    then show ?thesis using one_issue_cmds(1)[of ?d2] by (simp add: one_issue_def)
  next
    case idle
    then have "d' = ?d1\<lparr>priv := (priv ?d1)\<lparr>busy := False\<rparr>\<rparr>"
      using assms by (simp add: mcp2515_read_flags_complete_def Let_def)
    with idle show ?thesis by (simp add: went_idle_def)
  qed
qed

lemma transmit_or_read_flags_chain:
  assumes "mcp2515_transmit_or_read_flags d = Inr d'"
  shows "one_issue d d'"
proof (cases "transmit (priv d)")
  case True
  let ?d2 = "d\<lparr>priv := (priv d)\<lparr>transmit := False\<rparr>\<rparr>"
  from True have "mcp2515_load_txb0 (skb (priv ?d2)) ?d2 = Inr d'"
    using assms by (simp add: mcp2515_transmit_or_read_flags_def Let_def)
  then have "one_issue ?d2 d'" by (rule one_issue_load_txb0)
  then show ?thesis by (simp add: one_issue_def)
next
  case False
  then have "d' = mcp2515_read_flags d"
    using assms by (simp add: mcp2515_transmit_or_read_flags_def)
  then show ?thesis by (simp add: one_issue_cmds)
qed

lemma read_rxb0_complete_chain:
  assumes "mcp2515_read_rxb0_complete d = Inr d'"
  shows "one_issue d d'"
proof -
  let ?d1 = "mcp2515_read_rxb_complete d"
  have "one_issue ?d1 d'"
  proof (cases "canintf (priv d) AND CANINTF_RX1IF \<noteq> 0")
    case True
    then have "d' = mcp2515_read_rxb1 ?d1"
      using assms by (simp add: mcp2515_read_rxb0_complete_def Let_def)
    then show ?thesis by (simp add: one_issue_cmds)
  next
    case False
    then have "mcp2515_transmit_or_read_flags ?d1 = Inr d'"
      using assms by (simp add: mcp2515_read_rxb0_complete_def Let_def)
    then show ?thesis by (rule transmit_or_read_flags_chain)
  qed
  then show ?thesis by (rule one_issue_from) simp_all
qed

lemma read_rxb1_complete_chain:
  assumes "mcp2515_read_rxb1_complete d = Inr d'"
  shows "one_issue d d'"
proof -
  let ?d1 = "mcp2515_read_rxb_complete d"
  from assms have "mcp2515_transmit_or_read_flags ?d1 = Inr d'"
    by (simp add: mcp2515_read_rxb1_complete_def Let_def)
  then have "one_issue ?d1 d'" by (rule transmit_or_read_flags_chain)
  then show ?thesis by (rule one_issue_from) simp_all
qed

lemma clear_canintf_complete_chain: "one_issue d (mcp2515_clear_canintf_complete d)"
proof -
  let ?d0 = "case skb (priv d) of
               None \<Rightarrow> d
             | Some s \<Rightarrow>
                 can_echo_skb s
                   (d\<lparr>stats := (stats d)
                        \<lparr>tx_bytes := tx_bytes (stats d) + ucast (can_dlc (skb_data s)),
                         tx_packets := tx_packets (stats d) + 1\<rparr>\<rparr>)"
  let ?d1 = "if canintf (priv d) AND CANINTF_TX0IF \<noteq> 0
             then netif_wake_queue (?d0\<lparr>priv := (priv ?d0)\<lparr>skb := None\<rparr>\<rparr>)
             else d"
  have unfold: "mcp2515_clear_canintf_complete d =
      (if eflg (priv ?d1) \<noteq> 0 then mcp2515_clear_eflg ?d1 else mcp2515_read_flags ?d1)"
    by (simp add: mcp2515_clear_canintf_complete_def Let_def split: option.splits)
  have same: "spi_calls ?d1 = spi_calls d" "busy (priv ?d1) = busy (priv d)"
      "spi_pending ?d1 = spi_pending d"
    by (simp_all add: netif_wake_queue_def can_echo_skb_def split: option.splits)
  have "one_issue x (if eflg (priv x) \<noteq> 0 then mcp2515_clear_eflg x else mcp2515_read_flags x)"
    for x by (simp add: one_issue_cmds)
  then have "one_issue ?d1 (mcp2515_clear_canintf_complete d)"
    unfolding unfold .
  then show ?thesis using same by (rule one_issue_from)
qed

lemma other_complete_chain:
  "one_issue d (mcp2515_clear_eflg_complete d)"
  "one_issue d (mcp2515_load_txb0_complete d)"
  "one_issue d (mcp2515_rts_txb0_complete d)"
proof -
  show "one_issue d (mcp2515_clear_eflg_complete d)"
    unfolding mcp2515_clear_eflg_complete_def Let_def
    by (rule one_issue_from [OF one_issue_cmds(1)]) simp_all
qed (simp_all add: mcp2515_load_txb0_complete_def mcp2515_rts_txb0_complete_def one_issue_cmds)

lemma run_callback_chain:
  assumes "run_callback cb d = Inr d'"
  shows "one_issue d d' \<or>
         cb = Read_flags_complete \<and> went_idle d d' \<and> canintf (priv d') = 0 \<and>
           \<not> transmit (priv d) \<and> \<not> interrupt (priv d)"
  using assms
  by (cases cb)
     (auto simp: run_callback_def other_complete_chain clear_canintf_complete_chain
       dest: read_flags_complete_chain read_rxb0_complete_chain read_rxb1_complete_chain)

lemma one_issueD:
  assumes "one_issue d d'"
  shows "spi_calls d' = Suc (spi_calls d)" and "busy (priv d') = busy (priv d)"
    and "message_complete (priv d') \<noteq> None"
    and "length (spi_pending d') \<le> Suc (length (spi_pending d))"
proof -
  consider "spi_pending d' = spi_pending d" | "butlast (spi_pending d') = spi_pending d"
    using assms by (auto simp: one_issue_def)
  then show "length (spi_pending d') \<le> Suc (length (spi_pending d))"
  proof cases
    case 1
    then show ?thesis by simp
  next
    case 2
    then have "length (spi_pending d) = length (spi_pending d') - 1"
      by (metis length_butlast)
    then show ?thesis by simp
  qed
qed (use assms in \<open>simp_all add: one_issue_def\<close>)

lemma interrupt_chain:
  "busy (priv d) \<and> snd (mcp2515_interrupt d) = d\<lparr>priv := (priv d)\<lparr>interrupt := True\<rparr>\<rparr> \<or>
   \<not> busy (priv d) \<and> busy (priv (snd (mcp2515_interrupt d))) \<and>
     one_issue (d\<lparr>priv := (priv d)\<lparr>busy := True\<rparr>\<rparr>) (snd (mcp2515_interrupt d))"
  by (simp add: mcp2515_interrupt_def Let_def one_issue_cmds)

lemma start_xmit_chain:
  assumes "mcp2515_start_xmit s d = Inr (r, d')"
  shows "spi_calls d' = spi_calls d \<and> spi_pending d' = spi_pending d \<and>
           busy (priv d') = busy (priv d) \<and> message_complete (priv d') = message_complete (priv d) \<or>
         \<not> busy (priv d) \<and> busy (priv d') \<and>
           one_issue (d\<lparr>priv := (priv d)\<lparr>busy := True\<rparr>\<rparr>) d'"
proof (cases "skb_len s \<noteq> 16 \<or> 8 < can_dlc (skb_data s)")
  case True
  then show ?thesis using assms
    by (auto simp: mcp2515_start_xmit_def can_dropped_invalid_skb_def)
next
  case valid: False
  let ?d1 = "(netif_stop_queue d)\<lparr>priv := (priv (netif_stop_queue d))\<lparr>skb := Some s\<rparr>\<rparr>"
  show ?thesis
  proof (cases "busy (priv d)")
    case True
    with valid have "d' = ?d1\<lparr>priv := (priv ?d1)\<lparr>transmit := True\<rparr>\<rparr>"
      using assms
      by (simp add: mcp2515_start_xmit_def can_dropped_invalid_skb_def Let_def
          netif_stop_queue_def)
    with True show ?thesis by (simp add: netif_stop_queue_def)
  next
    case False
    let ?d2 = "?d1\<lparr>priv := (priv ?d1)\<lparr>busy := True\<rparr>\<rparr>"
    from False valid have "mcp2515_load_txb0 (Some s) ?d2 = Inr d'"
      using assms
      by (simp add: mcp2515_start_xmit_def can_dropped_invalid_skb_def Let_def
          netif_stop_queue_def split: sum.splits)
    then have "one_issue ?d2 d'" by (rule one_issue_load_txb0)
    then have "one_issue (d\<lparr>priv := (priv d)\<lparr>busy := True\<rparr>\<rparr>) d' \<and> busy (priv d')"
      by (simp add: one_issue_def netif_stop_queue_def)
    with False show ?thesis by simp
  qed
qed

lemma spi_complete_chain:
  assumes "spi_complete reply d = Inr d'" and "spi_pending d = m # ms"
  obtains cb d1 where "message_complete (priv d) = Some cb" "run_callback cb d1 = Inr d'"
    "spi_pending d1 = ms" "spi_calls d1 = spi_calls d" "busy (priv d1) = busy (priv d)"
    "transmit (priv d1) = transmit (priv d)" "interrupt (priv d1) = interrupt (priv d)"
proof -
  let ?got = "take (transfer_len (priv d)) reply"
  let ?d1 = "d\<lparr>spi_pending := ms,
               priv := (priv d)\<lparr>rx_buf := ?got @ drop (length ?got) (rx_buf (priv d))\<rparr>\<rparr>"
  from assms obtain cb where "message_complete (priv d) = Some cb"
    "run_callback cb ?d1 = Inr d'"
    by (auto simp: spi_complete_def Let_def split: option.splits)
  then show ?thesis by (intro that [of cb ?d1]) simp_all
qed

lemma step_chain:
  assumes inv: "chain_inv d" and st: "step e d = Inr d'"
  shows "chain_inv d' \<and>
         (spi_calls d' \<noteq> spi_calls d \<longrightarrow>
            spi_calls d' = spi_calls d + 1 \<and>
            (producer e \<and> \<not> busy (priv d) \<and> busy (priv d') \<or>
             completion e \<and> spi_pending d \<noteq> [] \<and> busy (priv d'))) \<and>
         (busy (priv d) \<and> \<not> busy (priv d') \<longrightarrow>
            spi_calls d' = spi_calls d \<and> spi_pending d' = [])"
proof (cases e)
  case Interrupt
  with st have d': "d' = snd (mcp2515_interrupt d)" by simp
  from interrupt_chain [of d] inv show ?thesis
    unfolding d' Interrupt by (auto simp: chain_inv_def dest: one_issueD)
next
  case (Start_xmit s)
  with st obtain r where "mcp2515_start_xmit s d = Inr (r, d')"
    by (auto split: sum.splits)
  from start_xmit_chain [OF this] inv show ?thesis
    unfolding Start_xmit by (auto simp: chain_inv_def dest: one_issueD)
next
  case (Environment r a)
  with st inv show ?thesis by (auto simp: chain_inv_def)
next
  case (Spi_complete reply)
  with st have sc: "spi_complete reply d = Inr d'" by simp
  show ?thesis
  proof (cases "spi_pending d")
    case Nil
    with sc have "d' = d" by (simp add: spi_complete_def)
    with inv show ?thesis by simp
  next
    case (Cons m ms)
    with inv have ms: "ms = []" and b: "busy (priv d)" by (auto simp: chain_inv_def)
    from sc Cons obtain cb d1 where cb: "run_callback cb d1 = Inr d'"
      and d1: "spi_pending d1 = ms" "spi_calls d1 = spi_calls d" "busy (priv d1) = busy (priv d)"
      by (rule spi_complete_chain)
    from run_callback_chain [OF cb] d1 ms b Cons show ?thesis
      unfolding Spi_complete by (auto simp: chain_inv_def went_idle_def dest: one_issueD)
  qed
qed

lemma chain_inv_init: "chain_inv dev_init"
  by (simp add: chain_inv_def dev_init_def)

lemma exec_chain_inv:
  "chain_inv d \<Longrightarrow> exec es d = Inr d' \<Longrightarrow> chain_inv d'"
proof (induction es arbitrary: d)
  case Nil
  then show ?case by simp
next
  case (Cons e es)
  from Cons.prems(2) obtain d1 where d1: "step e d = Inr d1" and rest: "exec es d1 = Inr d'"
    by (auto split: sum.splits)
  from step_chain [OF Cons.prems(1) d1] have "chain_inv d1" by simp
  then show ?case using rest by (rule Cons.IH)
qed

section \<open>Evaluating the model on concrete inputs\<close>

lemmas model_defs = mcp2515_spi_async_def mcp2515_read_flags_def mcp2515_read_rxb_def
  mcp2515_read_rxb0_def mcp2515_read_rxb1_def mcp2515_clear_canintf_def mcp2515_clear_eflg_def
  mcp2515_set_txbuf_def mcp2515_load_txb0_def mcp2515_rts_txb0_def
  mcp2515_read_flags_complete_def rxb_frame_def mcp2515_read_rxb_complete_def
  mcp2515_transmit_or_read_flags_def mcp2515_read_rxb0_complete_def
  mcp2515_read_rxb1_complete_def mcp2515_clear_canintf_complete_def
  mcp2515_clear_eflg_complete_def mcp2515_load_txb0_complete_def mcp2515_rts_txb0_complete_def
  mcp2515_interrupt_def mcp2515_start_xmit_def run_callback_def spi_complete_def
  can_dropped_invalid_skb_def alloc_can_skb_def zero_frame_def netif_rx_def
  netif_stop_queue_def netif_wake_queue_def can_echo_skb_def get_can_dlc_def
  priv_init_def stats_init_def dev_init_def
  RXBSIDL_SRR_def RXBSIDL_IDE_def RXBDLC_RTR_def CANINTF_ERRIF_def CANINTF_TX0IF_def
  CANINTF_RX1IF_def CANINTF_RX0IF_def EFLG_RX1OVR_def EFLG_RX0OVR_def
  CAN_EFF_FLAG_def CAN_RTR_FLAG_def CAN_ERR_FLAG_def

lemma replicate_numeral: "replicate (numeral v) x = x # replicate (pred_numeral v) x"
  by (simp add: numeral_eq_Suc)

lemma list_update_numeral: "(x # xs)[numeral v := y] = x # xs[pred_numeral v := y]"
  by (simp add: numeral_eq_Suc)

lemmas eval_defs = model_defs Let_def replicate_numeral list_update_numeral

section \<open>The branches of the flags decode\<close>

lemma read_flags_complete_rx0:
  assumes "rx_buf (priv dev) ! 2 AND CANINTF_RX0IF \<noteq> 0"
  shows "\<exists>dev'. mcp2515_read_flags_complete dev = Inr dev' \<and>
           issued dev dev' (0x90 # replicate 13 0) Read_rxb0_complete \<and> flags_kept dev dev'"
proof -
  let ?d1 = "dev\<lparr>priv := (priv dev)\<lparr>canintf := rx_buf (priv dev) ! 2,
                                     eflg := rx_buf (priv dev) ! 3\<rparr>\<rparr>"
  have r: "mcp2515_read_flags_complete dev = Inr (mcp2515_read_rxb0 ?d1)"
    using assms by (simp add: mcp2515_read_flags_complete_def Let_def)
  have "issued ?d1 (mcp2515_read_rxb0 ?d1) (0x90 # replicate 13 0) Read_rxb0_complete"
    unfolding mcp2515_read_rxb0_def by (rule read_rxb_issued)
  then have "issued dev (mcp2515_read_rxb0 ?d1) (0x90 # replicate 13 0) Read_rxb0_complete"
    by (rule issued_from) simp_all
  moreover have "flags_kept dev (mcp2515_read_rxb0 ?d1)"
    by (simp add: flags_kept_def cmd_defs Let_def)
  ultimately show ?thesis using r by simp
qed

lemma read_flags_complete_rx1:
  assumes "rx_buf (priv dev) ! 2 AND CANINTF_RX0IF = 0"
    and "rx_buf (priv dev) ! 2 AND CANINTF_RX1IF \<noteq> 0"
  shows "\<exists>dev'. mcp2515_read_flags_complete dev = Inr dev' \<and>
           issued dev dev' (0x94 # replicate 13 0) Read_rxb1_complete \<and> flags_kept dev dev'"
proof -
  let ?d1 = "dev\<lparr>priv := (priv dev)\<lparr>canintf := rx_buf (priv dev) ! 2,
                                     eflg := rx_buf (priv dev) ! 3\<rparr>\<rparr>"
  have r: "mcp2515_read_flags_complete dev = Inr (mcp2515_read_rxb1 ?d1)"
    using assms by (simp add: mcp2515_read_flags_complete_def Let_def)
  have "issued ?d1 (mcp2515_read_rxb1 ?d1) (0x94 # replicate 13 0) Read_rxb1_complete"
    unfolding mcp2515_read_rxb1_def by (rule read_rxb_issued)
  then have "issued dev (mcp2515_read_rxb1 ?d1) (0x94 # replicate 13 0) Read_rxb1_complete"
    by (rule issued_from) simp_all
  moreover have "flags_kept dev (mcp2515_read_rxb1 ?d1)"
    by (simp add: flags_kept_def cmd_defs Let_def)
  ultimately show ?thesis using r by simp
qed

lemma read_flags_complete_clear:
  assumes "length (tx_buf (priv dev)) = 14" and "rx_buf (priv dev) ! 2 = c"
    and "c AND CANINTF_RX0IF = 0" and "c AND CANINTF_RX1IF = 0" and "c \<noteq> 0"
  shows "\<exists>dev'. mcp2515_read_flags_complete dev = Inr dev' \<and>
           issued dev dev' [5, 0x2c, c AND NOT (CANINTF_RX0IF OR CANINTF_RX1IF), 0]
             Clear_canintf_complete \<and>
           flags_kept dev dev'"
proof -
  let ?d1 = "dev\<lparr>priv := (priv dev)\<lparr>canintf := c, eflg := rx_buf (priv dev) ! 3\<rparr>\<rparr>"
  have r: "mcp2515_read_flags_complete dev = Inr (mcp2515_clear_canintf ?d1)"
    using assms by (simp add: mcp2515_read_flags_complete_def Let_def)
  have "issued ?d1 (mcp2515_clear_canintf ?d1)
          [5, 0x2c, c AND NOT (CANINTF_RX0IF OR CANINTF_RX1IF), 0] Clear_canintf_complete"
    using clear_canintf_issued [of ?d1] assms(1) by simp
  then have "issued dev (mcp2515_clear_canintf ?d1)
          [5, 0x2c, c AND NOT (CANINTF_RX0IF OR CANINTF_RX1IF), 0] Clear_canintf_complete"
    by (rule issued_from) simp_all
  moreover have "flags_kept dev (mcp2515_clear_canintf ?d1)"
    by (simp add: flags_kept_def cmd_defs Let_def)
  ultimately show ?thesis using r by simp
qed

lemma read_flags_complete_transmit:
  assumes "length (tx_buf (priv dev)) = 14" and "rx_buf (priv dev) ! 2 = 0"
    and "transmit (priv dev)" and "skb (priv dev) = Some s" and "accepted_skb s"
  shows "\<exists>dev'. mcp2515_read_flags_complete dev = Inr dev' \<and>
           issued dev dev' (0x40 # txb0_bytes s) Load_txb0_complete \<and>
           \<not> transmit (priv dev') \<and> busy (priv dev') = busy (priv dev) \<and>
           interrupt (priv dev') = interrupt (priv dev)"
proof -
  let ?d2 = "dev\<lparr>priv := (priv dev)\<lparr>canintf := 0, eflg := rx_buf (priv dev) ! 3,
                                     transmit := False\<rparr>\<rparr>"
  have r: "mcp2515_read_flags_complete dev = mcp2515_load_txb0 (Some s) ?d2"
    using assms by (simp add: mcp2515_read_flags_complete_def Let_def)
  have "length (tx_buf (priv ?d2)) = 14" using assms(1) by simp
  from load_txb0_ok [OF this assms(5)] obtain d' where
    d': "mcp2515_load_txb0 (Some s) ?d2 = Inr d'"
      "issued ?d2 d' (0x40 # txb0_bytes s) Load_txb0_complete"
      "busy (priv d') = busy (priv ?d2)" "interrupt (priv d') = interrupt (priv ?d2)"
      "transmit (priv d') = transmit (priv ?d2)"
    by blast
  from d'(2) have "issued dev d' (0x40 # txb0_bytes s) Load_txb0_complete"
    by (rule issued_from) simp_all
  with d' r show ?thesis by simp
qed

lemma read_flags_complete_repoll:
  assumes "length (tx_buf (priv dev)) = 14" and "rx_buf (priv dev) ! 2 = 0"
    and "\<not> transmit (priv dev)" and "interrupt (priv dev)"
  shows "\<exists>dev'. mcp2515_read_flags_complete dev = Inr dev' \<and>
           issued dev dev' [3, 0x2c, 0, 0] Read_flags_complete \<and>
           \<not> interrupt (priv dev') \<and> busy (priv dev') = busy (priv dev) \<and>
           \<not> transmit (priv dev')"
proof -
  let ?d2 = "dev\<lparr>priv := (priv dev)\<lparr>canintf := 0, eflg := rx_buf (priv dev) ! 3,
                                     interrupt := False\<rparr>\<rparr>"
  have r: "mcp2515_read_flags_complete dev = Inr (mcp2515_read_flags ?d2)"
    using assms by (simp add: mcp2515_read_flags_complete_def Let_def)
  have "issued ?d2 (mcp2515_read_flags ?d2) [3, 0x2c, 0, 0] Read_flags_complete"
    using assms(1) by (intro read_flags_issued) simp
  then have "issued dev (mcp2515_read_flags ?d2) [3, 0x2c, 0, 0] Read_flags_complete"
    by (rule issued_from) simp_all
  then show ?thesis using r assms(3) by simp
qed

lemma read_flags_complete_idle:
  assumes "rx_buf (priv dev) ! 2 = 0" and "\<not> transmit (priv dev)" and "\<not> interrupt (priv dev)"
  shows "\<exists>dev'. mcp2515_read_flags_complete dev = Inr dev' \<and>
           \<not> busy (priv dev') \<and> spi_calls dev' = spi_calls dev \<and>
           spi_pending dev' = spi_pending dev \<and>
           \<not> transmit (priv dev') \<and> \<not> interrupt (priv dev')"
  using assms by (simp add: mcp2515_read_flags_complete_def Let_def)

lemma step_clears_busy:
  assumes "step e d = Inr d'" and "busy (priv d)" and "\<not> busy (priv d')"
  shows "completion e \<and> spi_pending d \<noteq> [] \<and>
         message_complete (priv d) = Some Read_flags_complete \<and>
         canintf (priv d') = 0 \<and> \<not> transmit (priv d) \<and> \<not> interrupt (priv d)"
proof (cases e)
  case Interrupt
  with assms(1) have "d' = snd (mcp2515_interrupt d)" by simp
  with interrupt_chain [of d] assms(2,3) show ?thesis by auto
next
  case (Start_xmit s)
  with assms(1) obtain r where "mcp2515_start_xmit s d = Inr (r, d')"
    by (auto split: sum.splits)
  from start_xmit_chain [OF this] assms(2,3) show ?thesis by auto
next
  case (Environment r a)
  with assms show ?thesis by auto
next
  case (Spi_complete reply)
  with assms(1) have sc: "spi_complete reply d = Inr d'" by simp
  show ?thesis
  proof (cases "spi_pending d")
    case Nil
    with sc have "d' = d" by (simp add: spi_complete_def)
    with assms(2,3) show ?thesis by simp
  next
    case (Cons m ms)
    from sc Cons obtain cb d1 where cb: "message_complete (priv d) = Some cb"
      "run_callback cb d1 = Inr d'"
      and d1: "busy (priv d1) = busy (priv d)"
      "transmit (priv d1) = transmit (priv d)" "interrupt (priv d1) = interrupt (priv d)"
      by (rule spi_complete_chain)
    from run_callback_chain [OF cb(2)] d1 assms(2,3) cb(1) Cons show ?thesis
      unfolding Spi_complete by (auto dest: one_issueD)
  qed
qed

section \<open>A receive-buffer read that finds no memory\<close>

lemma read_rxb_complete_no_memory:
  assumes "\<not> alloc_ok dev"
  shows "mcp2515_read_rxb_complete dev =
           dev\<lparr>stats := (stats dev)\<lparr>rx_dropped := rx_dropped (stats dev) + 1\<rparr>\<rparr>"
  using assms by (simp add: mcp2515_read_rxb_complete_def alloc_can_skb_def)

lemma transmit_or_read_flags_idle:
  assumes "length (tx_buf (priv d)) = 14" and "\<not> transmit (priv d)"
  shows "\<exists>d'. mcp2515_transmit_or_read_flags d = Inr d' \<and>
           issued d d' [3, 0x2c, 0, 0] Read_flags_complete \<and>
           stats d' = stats d \<and> netif_rx_log d' = netif_rx_log d"
  using assms read_flags_issued [of d]
  by (simp add: mcp2515_transmit_or_read_flags_def)

lemma transmit_or_read_flags_pending:
  assumes "length (tx_buf (priv d)) = 14" and "transmit (priv d)"
    and "skb (priv d) = Some s" and "accepted_skb s"
  shows "\<exists>d'. mcp2515_transmit_or_read_flags d = Inr d' \<and>
           issued d d' (0x40 # txb0_bytes s) Load_txb0_complete \<and>
           \<not> transmit (priv d') \<and>
           stats d' = stats d \<and> netif_rx_log d' = netif_rx_log d"
proof -
  let ?d2 = "d\<lparr>priv := (priv d)\<lparr>transmit := False\<rparr>\<rparr>"
  have r: "mcp2515_transmit_or_read_flags d = mcp2515_load_txb0 (Some s) ?d2"
    using assms by (simp add: mcp2515_transmit_or_read_flags_def Let_def)
  have "length (tx_buf (priv ?d2)) = 14" using assms(1) by simp
  from load_txb0_ok [OF this assms(4)] obtain d' where
    d': "mcp2515_load_txb0 (Some s) ?d2 = Inr d'"
      "issued ?d2 d' (0x40 # txb0_bytes s) Load_txb0_complete"
      "transmit (priv d') = transmit (priv ?d2)"
      "stats d' = stats ?d2" "netif_rx_log d' = netif_rx_log ?d2"
    by blast
  from d'(2) have "issued d d' (0x40 # txb0_bytes s) Load_txb0_complete"
    by (rule issued_from) simp_all
  with d' r show ?thesis by simp
qed

lemma frame_dropped_then:
  assumes "stats d' = stats (d\<lparr>stats := (stats d)\<lparr>rx_dropped := rx_dropped (stats d) + 1\<rparr>\<rparr>)"
    and "netif_rx_log d' = netif_rx_log d"
  shows "frame_dropped d d'"
  using assms by (simp add: frame_dropped_def)

lemma read_rxb0_complete_no_memory_rx1:
  assumes "\<not> alloc_ok dev" and "canintf (priv dev) AND CANINTF_RX1IF \<noteq> 0"
  shows "\<exists>dev'. mcp2515_read_rxb0_complete dev = Inr dev' \<and> frame_dropped dev dev' \<and>
           issued dev dev' (0x94 # replicate 13 0) Read_rxb1_complete"
proof -
  let ?d1 = "dev\<lparr>stats := (stats dev)\<lparr>rx_dropped := rx_dropped (stats dev) + 1\<rparr>\<rparr>"
  have r: "mcp2515_read_rxb0_complete dev = Inr (mcp2515_read_rxb1 ?d1)"
    using assms
    by (simp add: mcp2515_read_rxb0_complete_def read_rxb_complete_no_memory Let_def)
  have "issued ?d1 (mcp2515_read_rxb1 ?d1) (0x94 # replicate 13 0) Read_rxb1_complete"
    unfolding mcp2515_read_rxb1_def by (rule read_rxb_issued)
  then have "issued dev (mcp2515_read_rxb1 ?d1) (0x94 # replicate 13 0) Read_rxb1_complete"
    by (rule issued_from) simp_all
  moreover have "frame_dropped dev (mcp2515_read_rxb1 ?d1)"
    by (rule frame_dropped_then) (simp_all add: cmd_defs Let_def)
  ultimately show ?thesis using r by simp
qed

lemma no_memory_then_idle:
  assumes "\<not> alloc_ok dev" and "length (tx_buf (priv dev)) = 14" and "\<not> transmit (priv dev)"
  shows "\<exists>dev'. mcp2515_transmit_or_read_flags (mcp2515_read_rxb_complete dev) = Inr dev' \<and>
           frame_dropped dev dev' \<and> issued dev dev' [3, 0x2c, 0, 0] Read_flags_complete"
proof -
  let ?d1 = "dev\<lparr>stats := (stats dev)\<lparr>rx_dropped := rx_dropped (stats dev) + 1\<rparr>\<rparr>"
  have d1: "mcp2515_read_rxb_complete dev = ?d1"
    using assms(1) by (rule read_rxb_complete_no_memory)
  have "length (tx_buf (priv ?d1)) = 14" "\<not> transmit (priv ?d1)"
    using assms by simp_all
  from transmit_or_read_flags_idle [OF this] obtain d' where
    d': "mcp2515_transmit_or_read_flags ?d1 = Inr d'"
      "issued ?d1 d' [3, 0x2c, 0, 0] Read_flags_complete"
      "stats d' = stats ?d1" "netif_rx_log d' = netif_rx_log ?d1"
    by blast
  from d'(2) have "issued dev d' [3, 0x2c, 0, 0] Read_flags_complete"
    by (rule issued_from) simp_all
  moreover have "frame_dropped dev d'"
    using d'(3,4) by (intro frame_dropped_then) simp_all
  ultimately show ?thesis using d'(1) d1 by simp
qed

lemma no_memory_then_pending:
  assumes "\<not> alloc_ok dev" and "length (tx_buf (priv dev)) = 14" and "transmit (priv dev)"
    and "skb (priv dev) = Some s" and "accepted_skb s"
  shows "\<exists>dev'. mcp2515_transmit_or_read_flags (mcp2515_read_rxb_complete dev) = Inr dev' \<and>
           frame_dropped dev dev' \<and>
           issued dev dev' (0x40 # txb0_bytes s) Load_txb0_complete"
proof -
  let ?d1 = "dev\<lparr>stats := (stats dev)\<lparr>rx_dropped := rx_dropped (stats dev) + 1\<rparr>\<rparr>"
  have d1: "mcp2515_read_rxb_complete dev = ?d1"
    using assms(1) by (rule read_rxb_complete_no_memory)
  have "length (tx_buf (priv ?d1)) = 14" "transmit (priv ?d1)" "skb (priv ?d1) = Some s"
    using assms by simp_all
  from transmit_or_read_flags_pending [OF this assms(5)] obtain d' where
    d': "mcp2515_transmit_or_read_flags ?d1 = Inr d'"
      "issued ?d1 d' (0x40 # txb0_bytes s) Load_txb0_complete"
      "stats d' = stats ?d1" "netif_rx_log d' = netif_rx_log ?d1"
    by blast
  from d'(2) have "issued dev d' (0x40 # txb0_bytes s) Load_txb0_complete"
    by (rule issued_from) simp_all
  moreover have "frame_dropped dev d'"
    using d'(3,4) by (intro frame_dropped_then) simp_all
  ultimately show ?thesis using d'(1) d1 by simp
qed

lemma read_rxb0_complete_no_rx1:
  assumes "canintf (priv dev) AND CANINTF_RX1IF = 0"
  shows "mcp2515_read_rxb0_complete dev =
           mcp2515_transmit_or_read_flags (mcp2515_read_rxb_complete dev)"
  using assms by (simp add: mcp2515_read_rxb0_complete_def Let_def)

lemma read_rxb1_complete_unfold:
  "mcp2515_read_rxb1_complete dev =
     mcp2515_transmit_or_read_flags (mcp2515_read_rxb_complete dev)"
  by (simp add: mcp2515_read_rxb1_complete_def Let_def)

section \<open>The producers\<close>

lemma interrupt_idle:
  assumes "length (tx_buf (priv dev)) = 14" and "\<not> busy (priv dev)"
  shows "\<exists>dev'. mcp2515_interrupt dev = (IRQ_HANDLED, dev') \<and> busy (priv dev') \<and>
           issued dev dev' [3, 0x2c, 0, 0] Read_flags_complete \<and>
           interrupt (priv dev') = interrupt (priv dev) \<and>
           transmit (priv dev') = transmit (priv dev)"
proof -
  let ?d1 = "dev\<lparr>priv := (priv dev)\<lparr>busy := True\<rparr>\<rparr>"
  have r: "mcp2515_interrupt dev = (IRQ_HANDLED, mcp2515_read_flags ?d1)"
    using assms(2) by (simp add: mcp2515_interrupt_def Let_def)
  have "issued ?d1 (mcp2515_read_flags ?d1) [3, 0x2c, 0, 0] Read_flags_complete"
    using assms(1) by (intro read_flags_issued) simp
  then have "issued dev (mcp2515_read_flags ?d1) [3, 0x2c, 0, 0] Read_flags_complete"
    by (rule issued_from) simp_all
  then show ?thesis using r by simp
qed

lemma interrupt_busy:
  assumes "busy (priv dev)"
  shows "mcp2515_interrupt dev = (IRQ_HANDLED, dev\<lparr>priv := (priv dev)\<lparr>interrupt := True\<rparr>\<rparr>)"
  using assms by (simp add: mcp2515_interrupt_def)

lemma accepted_not_dropped:
  assumes "accepted_skb s"
  shows "can_dropped_invalid_skb dev s = (False, dev)"
  using assms by (simp add: can_dropped_invalid_skb_def accepted_skb_def not_less)

lemma start_xmit_idle:
  assumes "length (tx_buf (priv dev)) = 14" and "\<not> busy (priv dev)" and "accepted_skb s"
  shows "\<exists>dev'. mcp2515_start_xmit s dev = Inr (NETDEV_TX_OK, dev') \<and> busy (priv dev') \<and>
           skb (priv dev') = Some s \<and> queue_stopped dev' \<and>
           issued dev dev' (0x40 # txb0_bytes s) Load_txb0_complete \<and>
           interrupt (priv dev') = interrupt (priv dev) \<and>
           transmit (priv dev') = transmit (priv dev)"
proof -
  let ?d2 = "dev\<lparr>queue_stopped := True, priv := (priv dev)\<lparr>skb := Some s, busy := True\<rparr>\<rparr>"
  have r: "mcp2515_start_xmit s dev =
      (case mcp2515_load_txb0 (Some s) ?d2 of Inl f \<Rightarrow> Inl f
       | Inr dev' \<Rightarrow> Inr (NETDEV_TX_OK, dev'))"
    using assms(2)
    by (simp add: mcp2515_start_xmit_def accepted_not_dropped [OF assms(3)] Let_def
        netif_stop_queue_def)
  have "length (tx_buf (priv ?d2)) = 14" using assms(1) by simp
  from load_txb0_ok [OF this assms(3)] obtain d' where
    d': "mcp2515_load_txb0 (Some s) ?d2 = Inr d'"
      "issued ?d2 d' (0x40 # txb0_bytes s) Load_txb0_complete"
      "queue_stopped d' = queue_stopped ?d2" "skb (priv d') = skb (priv ?d2)"
      "busy (priv d') = busy (priv ?d2)" "interrupt (priv d') = interrupt (priv ?d2)"
      "transmit (priv d') = transmit (priv ?d2)"
    by blast
  from d'(2) have "issued dev d' (0x40 # txb0_bytes s) Load_txb0_complete"
    by (rule issued_from) simp_all
  with d' r show ?thesis by simp
qed

lemma start_xmit_busy:
  assumes "busy (priv dev)" and "skb_len s = 16" and "can_dlc (skb_data s) \<le> 8"
  shows "mcp2515_start_xmit s dev =
           Inr (NETDEV_TX_OK,
                dev\<lparr>queue_stopped := True,
                    priv := (priv dev)\<lparr>skb := Some s, transmit := True\<rparr>\<rparr>)"
  using assms
  by (simp add: mcp2515_start_xmit_def can_dropped_invalid_skb_def Let_def
      netif_stop_queue_def not_less)

lemma start_xmit_dropped:
  assumes "skb_len s \<noteq> 16 \<or> 8 < can_dlc (skb_data s)"
  shows "mcp2515_start_xmit s dev =
           Inr (NETDEV_TX_OK,
                dev\<lparr>stats := (stats dev)\<lparr>tx_dropped := tx_dropped (stats dev) + 1\<rparr>\<rparr>)"
  using assms by (auto simp: mcp2515_start_xmit_def can_dropped_invalid_skb_def)

lemma start_xmit_result:
  assumes "mcp2515_start_xmit s dev = Inr (r, dev')"
  shows "r = NETDEV_TX_OK"
  using assms
  by (auto simp: mcp2515_start_xmit_def Let_def split: prod.splits bool.splits if_splits sum.splits)

section \<open>The frame codec, bit by bit\<close>

lemma below_32:
  assumes "n < (32 :: nat)"
  shows "n \<in> {0, 1, 2, 3, 4, 5, 6, 7, 8, 9, 10, 11, 12, 13, 14, 15, 16, 17, 18, 19, 20,
               21, 22, 23, 24, 25, 26, 27, 28, 29, 30, 31}"
  using assms by simp arith

lemma ext_id_roundtrip:
  fixes w :: u32
  shows "push_bit 21 (ucast (ucast (drop_bit 21 w) :: u8)) OR
         push_bit 13 (ucast ((ucast (drop_bit 13 w AND 0xe0 OR 8 OR drop_bit 16 w AND 3) :: u8) AND 0xe0)) OR
         push_bit 16 (ucast ((ucast (drop_bit 13 w AND 0xe0 OR 8 OR drop_bit 16 w AND 3) :: u8) AND 3)) OR
         push_bit 8 (ucast (ucast (drop_bit 8 w) :: u8)) OR
         ucast (ucast w :: u8) = w AND 0x1FFFFFFF"
proof (rule bit_word_eqI)
  fix n
  assume "n < LENGTH(32)"
  then have "n \<in> {0, 1, 2, 3, 4, 5, 6, 7, 8, 9, 10, 11, 12, 13, 14, 15, 16, 17, 18, 19, 20,
               21, 22, 23, 24, 25, 26, 27, 28, 29, 30, 31}"
    by (intro below_32) simp
  then show "bit (push_bit 21 (ucast (ucast (drop_bit 21 w) :: u8)) OR
         push_bit 13 (ucast ((ucast (drop_bit 13 w AND 0xe0 OR 8 OR drop_bit 16 w AND 3) :: u8) AND 0xe0)) OR
         push_bit 16 (ucast ((ucast (drop_bit 13 w AND 0xe0 OR 8 OR drop_bit 16 w AND 3) :: u8) AND 3)) OR
         push_bit 8 (ucast (ucast (drop_bit 8 w) :: u8)) OR
         ucast (ucast w :: u8) :: u32) n = bit (w AND 0x1FFFFFFF) n"
    by (elim insertE emptyE; simp add: bit_simps)
qed

lemma rtr_bit: "(x AND CAN_RTR_FLAG = 0) = (\<not> bit x 30)" for x :: u32
proof -
  have "CAN_RTR_FLAG = push_bit 30 1" by (simp add: CAN_RTR_FLAG_def)
  then show ?thesis by (simp add: bit_iff_and_push_bit_not_eq_0)
qed

lemma eff_bit: "(x AND CAN_EFF_FLAG = 0) = (\<not> bit x 31)" for x :: u32
proof -
  have "CAN_EFF_FLAG = push_bit 31 1" by (simp add: CAN_EFF_FLAG_def)
  then show ?thesis by (simp add: bit_iff_and_push_bit_not_eq_0)
qed

lemma err_bit: "(x AND CAN_ERR_FLAG = 0) = (\<not> bit x 29)" for x :: u32
proof -
  have "CAN_ERR_FLAG = push_bit 29 1" by (simp add: CAN_ERR_FLAG_def)
  then show ?thesis by (simp add: bit_iff_and_push_bit_not_eq_0)
qed

lemma u8_bit:
  "(b AND RXBDLC_RTR = 0) = (\<not> bit b 6)" "(b AND RXBSIDL_SRR = 0) = (\<not> bit b 4)"
  "(b AND RXBSIDL_IDE = 0) = (\<not> bit b 3)"
  for b :: u8
proof -
  have "RXBDLC_RTR = push_bit 6 1" "RXBSIDL_SRR = push_bit 4 1" "RXBSIDL_IDE = push_bit 3 1"
    by (simp_all add: RXBDLC_RTR_def RXBSIDL_SRR_def RXBSIDL_IDE_def)
  then show "(b AND RXBDLC_RTR = 0) = (\<not> bit b 6)" "(b AND RXBSIDL_SRR = 0) = (\<not> bit b 4)"
    "(b AND RXBSIDL_IDE = 0) = (\<not> bit b 3)"
    by (simp_all add: bit_iff_and_push_bit_not_eq_0)
qed

lemma bit_EFF: "bit CAN_EFF_FLAG n = (n = 31)"
proof -
  have "CAN_EFF_FLAG = 2 ^ 31" by (simp add: CAN_EFF_FLAG_def)
  then have "bit CAN_EFF_FLAG n = bit (2 ^ 31 :: u32) n" by (simp only:)
  also have "\<dots> = (n = 31)" by (simp only: bit_exp_iff) (auto simp: possible_bit_word)
  finally show ?thesis .
qed

lemma bit_RTR: "bit CAN_RTR_FLAG n = (n = 30)"
proof -
  have "CAN_RTR_FLAG = 2 ^ 30" by (simp add: CAN_RTR_FLAG_def)
  then have "bit CAN_RTR_FLAG n = bit (2 ^ 30 :: u32) n" by (simp only:)
  also have "\<dots> = (n = 30)" by (simp only: bit_exp_iff) (auto simp: possible_bit_word)
  finally show ?thesis .
qed

lemma decode_rtr:
  "(can_id (rxb_frame b) AND CAN_RTR_FLAG \<noteq> 0) =
     (if b ! 2 AND RXBSIDL_IDE \<noteq> 0 then b ! 5 AND RXBDLC_RTR \<noteq> 0
      else b ! 2 AND RXBSIDL_SRR \<noteq> 0)"
  by (auto simp add: rxb_frame_def Let_def rtr_bit u8_bit bit_simps bit_EFF bit_RTR
      dest: bit_imp_le_length)

lemma word_and_zero_bit:
  fixes w :: "'a :: len word"
  assumes "w AND x = 0" and "bit x n"
  shows "\<not> bit w n"
proof
  assume "bit w n"
  with assms(2) have "bit (w AND x) n" by (simp add: bit_and_iff)
  with assms(1) show False by simp
qed

lemma std_id_clear:
  fixes w :: u32
  assumes "w AND CAN_EFF_MASK AND NOT CAN_SFF_MASK = 0" and "11 \<le> n" and "n < 29"
  shows "bit w n = False"
proof -
  have "n \<in> {11, 12, 13, 14, 15, 16, 17, 18, 19, 20, 21, 22, 23, 24, 25, 26, 27, 28}"
    using assms(2,3) by simp arith
  then have "bit (CAN_EFF_MASK AND NOT CAN_SFF_MASK) n"
    by (elim insertE emptyE; simp add: CAN_EFF_MASK_def CAN_SFF_MASK_def bit_simps)
  moreover have "w AND (CAN_EFF_MASK AND NOT CAN_SFF_MASK) = 0"
    using assms(1) by (simp add: and.assoc)
  ultimately show ?thesis using word_and_zero_bit by blast
qed

lemma std_id_roundtrip:
  fixes w :: u32
  assumes "w AND CAN_EFF_MASK AND NOT CAN_SFF_MASK = 0"
  shows "push_bit 3 (ucast (ucast (drop_bit 3 w) :: u8)) OR
         ucast (drop_bit 5 (ucast (push_bit 5 w) :: u8)) = w AND CAN_EFF_MASK"
proof (rule bit_word_eqI)
  fix n
  assume "n < LENGTH(32)"
  then have "n \<in> {0, 1, 2, 3, 4, 5, 6, 7, 8, 9, 10, 11, 12, 13, 14, 15, 16, 17, 18, 19, 20,
               21, 22, 23, 24, 25, 26, 27, 28, 29, 30, 31}"
    by (intro below_32) simp
  then show "bit (push_bit 3 (ucast (ucast (drop_bit 3 w) :: u8)) OR
         ucast (drop_bit 5 (ucast (push_bit 5 w) :: u8)) :: u32) n = bit (w AND CAN_EFF_MASK) n"
    by (elim insertE emptyE; simp add: bit_simps CAN_EFF_MASK_def std_id_clear [OF assms])
qed

lemma u8_le8_cases:
  fixes d :: u8
  assumes "d \<le> 8"
  shows "d \<in> {0, 1, 2, 3, 4, 5, 6, 7, 8}"
proof -
  have "unat d \<le> 8" using assms by (simp add: word_le_nat_alt)
  then have "unat d \<in> {0, 1, 2, 3, 4, 5, 6, 7, 8}" by simp arith
  moreover have "d = of_nat (unat d)" by simp
  ultimately show ?thesis
    by (elim insertE emptyE) simp_all
qed

lemma dlc_byte:
  fixes d :: u8
  assumes "d \<le> 8"
  shows "get_can_dlc (d AND 0xf) = d" and "get_can_dlc ((d OR 0x40) AND 0xf) = d"
    and "d AND RXBDLC_RTR = 0" and "(d OR 0x40) AND RXBDLC_RTR \<noteq> 0"
  using u8_le8_cases [OF assms]
  by (auto simp: get_can_dlc_def RXBDLC_RTR_def)

lemma sidl_ext:
  fixes w :: u32
  shows "(ucast (drop_bit 13 w AND 0xe0 OR 8 OR drop_bit 16 w AND 3) :: u8) AND RXBSIDL_IDE \<noteq> 0"
    and "(ucast (drop_bit 13 w AND 0xe0 OR 8 OR drop_bit 16 w AND 3) :: u8) AND RXBSIDL_SRR = 0"
  by (simp_all add: u8_bit bit_simps)

lemma sidl_std:
  fixes w :: u32
  shows "(ucast (push_bit 5 w) :: u8) AND RXBSIDL_IDE = 0"
    and "(ucast (push_bit 5 w) :: u8) AND RXBSIDL_SRR = 0"
  by (simp_all add: u8_bit bit_simps)

lemma take5_upd_gen:
  assumes "5 \<le> length xs"
  shows "xs[0 := a, Suc 0 := b, 2 := c, 3 := d, 4 := e] = [a, b, c, d, e] @ drop 5 xs"
  using assms
  by (cases xs; cases "tl xs"; cases "tl (tl xs)"; cases "tl (tl (tl xs))";
      cases "tl (tl (tl (tl xs)))"; auto)

lemma set_txbuf_shape:
  assumes "5 + unat (can_dlc (skb_data s)) \<le> length buf"
    and "unat (can_dlc (skb_data s)) \<le> length (data (skb_data s))"
  shows "mcp2515_set_txbuf buf (Some s) =
           Inr ((if can_id (skb_data s) AND CAN_EFF_FLAG \<noteq> 0
                 then [ucast (drop_bit 21 (can_id (skb_data s))),
                       ucast (drop_bit 13 (can_id (skb_data s)) AND 0xe0 OR 8 OR
                              drop_bit 16 (can_id (skb_data s)) AND 3),
                       ucast (drop_bit 8 (can_id (skb_data s))),
                       ucast (can_id (skb_data s))]
                 else [ucast (drop_bit 3 (can_id (skb_data s))),
                       ucast (push_bit 5 (can_id (skb_data s))), 0, 0]) @
                [if can_id (skb_data s) AND CAN_RTR_FLAG \<noteq> 0
                 then can_dlc (skb_data s) OR 0x40 else can_dlc (skb_data s)] @
                take (unat (can_dlc (skb_data s))) (data (skb_data s)) @
                drop (5 + unat (can_dlc (skb_data s))) buf,
                5 + unat (can_dlc (skb_data s)))"
proof -
  have len: "5 \<le> length buf" using assms(1) by simp
  show ?thesis
    using assms
    by (simp add: mcp2515_set_txbuf_def Let_def take5_upd_gen [OF len] not_less)
qed

lemma set_txbuf_Inr:
  assumes "mcp2515_set_txbuf buf (Some s) = Inr (rest, n)"
  shows "5 + unat (can_dlc (skb_data s)) \<le> length buf"
    and "unat (can_dlc (skb_data s)) \<le> length (data (skb_data s))"
  using assms
  by (auto simp: mcp2515_set_txbuf_def Let_def split: if_splits)

lemma rxb_frame_bytes:
  "rxb_frame (i # h0 # h1 # h2 # h3 # h4 # xs) =
     \<lparr>can_id =
        (if h1 AND RXBSIDL_IDE \<noteq> 0
         then (if h4 AND RXBDLC_RTR \<noteq> 0
               then push_bit 21 (ucast h0) OR push_bit 13 (ucast (h1 AND 0xe0)) OR
                    push_bit 16 (ucast (h1 AND 3)) OR push_bit 8 (ucast h2) OR ucast h3 OR
                    CAN_EFF_FLAG OR CAN_RTR_FLAG
               else push_bit 21 (ucast h0) OR push_bit 13 (ucast (h1 AND 0xe0)) OR
                    push_bit 16 (ucast (h1 AND 3)) OR push_bit 8 (ucast h2) OR ucast h3 OR
                    CAN_EFF_FLAG)
         else (if h1 AND RXBSIDL_SRR \<noteq> 0
               then push_bit 3 (ucast h0) OR ucast (drop_bit 5 h1) OR CAN_RTR_FLAG
               else push_bit 3 (ucast h0) OR ucast (drop_bit 5 h1))),
      can_dlc = get_can_dlc (h4 AND 0xf),
      data = take (unat (get_can_dlc (h4 AND 0xf))) xs @
             drop (unat (get_can_dlc (h4 AND 0xf))) (replicate 8 0)\<rparr>"
  by (simp add: rxb_frame_def Let_def zero_frame_def or.assoc)

lemma ext_flags_restore:
  fixes w :: u32
  assumes "bit w 31" and "\<not> bit w 29"
  shows "w AND 0x1FFFFFFF OR CAN_EFF_FLAG OR (if bit w 30 then CAN_RTR_FLAG else 0) = w"
proof (rule bit_word_eqI)
  fix n
  assume "n < LENGTH(32)"
  then have "n \<in> {0, 1, 2, 3, 4, 5, 6, 7, 8, 9, 10, 11, 12, 13, 14, 15, 16, 17, 18, 19, 20,
               21, 22, 23, 24, 25, 26, 27, 28, 29, 30, 31}"
    by (intro below_32) simp
  then show "bit (w AND 0x1FFFFFFF OR CAN_EFF_FLAG OR (if bit w 30 then CAN_RTR_FLAG else 0)) n =
      bit w n"
    using assms
    by (elim insertE emptyE; simp add: bit_simps CAN_EFF_FLAG_def CAN_RTR_FLAG_def)
qed

lemma ext_id_roundtrip_tail:
  fixes w :: u32
  shows "push_bit 21 (ucast (ucast (drop_bit 21 w) :: u8)) OR
         push_bit 13 (ucast ((ucast (drop_bit 13 w AND 0xe0 OR 8 OR drop_bit 16 w AND 3) :: u8) AND 0xe0)) OR
         push_bit 16 (ucast ((ucast (drop_bit 13 w AND 0xe0 OR 8 OR drop_bit 16 w AND 3) :: u8) AND 3)) OR
         push_bit 8 (ucast (ucast (drop_bit 8 w) :: u8)) OR
         ucast (ucast w :: u8) OR t = w AND 0x1FFFFFFF OR t"
  using arg_cong [OF ext_id_roundtrip, of "\<lambda>x. x OR t" w] by (simp add: or.assoc)

lemma decode_encoded_ext:
  fixes w :: u32 and d :: u8
  assumes "w AND CAN_EFF_FLAG \<noteq> 0" and "w AND CAN_ERR_FLAG = 0" and "d \<le> 8"
  shows "can_id (rxb_frame
           (i # ([ucast (drop_bit 21 w),
                  ucast (drop_bit 13 w AND 0xe0 OR 8 OR drop_bit 16 w AND 3),
                  ucast (drop_bit 8 w), ucast w] @
                 [if w AND CAN_RTR_FLAG \<noteq> 0 then d OR 0x40 else d] @ xs))) = w"
proof -
  have bits: "bit w 31" "\<not> bit w 29"
    using assms(1,2) by (simp_all add: eff_bit err_bit)
  have rtr: "(w AND CAN_RTR_FLAG \<noteq> 0) = bit w 30" by (simp add: rtr_bit)
  have restore: "bit w 30 \<Longrightarrow> w AND 0x1FFFFFFF OR CAN_EFF_FLAG OR CAN_RTR_FLAG = w"
    "\<not> bit w 30 \<Longrightarrow> w AND 0x1FFFFFFF OR CAN_EFF_FLAG = w"
    using ext_flags_restore [OF bits] by simp_all
  show ?thesis
    using dlc_byte [OF assms(3)]
    by (simp add: rxb_frame_bytes sidl_ext ext_id_roundtrip_tail rtr restore)
qed

lemma decode_encoded_std:
  fixes w :: u32 and d :: u8
  assumes "w AND CAN_EFF_MASK AND NOT CAN_SFF_MASK = 0"
  shows "can_id (rxb_frame
           (i # ([ucast (drop_bit 3 w), ucast (push_bit 5 w), 0, 0] @ [h4] @ xs))) =
         w AND CAN_EFF_MASK"
  by (simp add: rxb_frame_bytes sidl_std std_id_roundtrip [OF assms])

lemma decode_encoded_dlc:
  fixes d :: u8
  assumes "d \<le> 8" and "unat d \<le> length ys"
  shows "can_dlc (rxb_frame (i # ([h0, h1, h2, h3] @ [if r then d OR 0x40 else d] @
            take (unat d) ys @ zs))) = d"
    and "take (unat d) (data (rxb_frame (i # ([h0, h1, h2, h3] @ [if r then d OR 0x40 else d] @
            take (unat d) ys @ zs)))) = take (unat d) ys"
  using dlc_byte [OF assms(1)] assms(2)
  by (simp_all add: rxb_frame_bytes)

lemma valid_frameD:
  assumes "valid_frame f"
  shows "can_dlc f \<le> 8" and "unat (can_dlc f) \<le> 8" and "length (data f) = 8"
    and "can_id f AND CAN_ERR_FLAG = 0"
    and "can_id f AND CAN_EFF_FLAG = 0 \<Longrightarrow> can_id f AND CAN_EFF_MASK AND NOT CAN_SFF_MASK = 0"
  using assms by (simp_all add: valid_frame_def dlc_le8 split: if_splits)

lemma mask_flag_disjoint:
  fixes w :: u32
  shows "(w AND CAN_EFF_MASK) AND CAN_EFF_FLAG = 0"
    and "(w AND CAN_EFF_MASK) AND CAN_RTR_FLAG = 0"
    and "(w AND CAN_EFF_MASK) AND CAN_EFF_MASK = w AND CAN_EFF_MASK"
  by (simp_all add: and.assoc CAN_EFF_MASK_def CAN_EFF_FLAG_def CAN_RTR_FLAG_def)

section \<open>Where a finished transmission is reported\<close>

lemma load_txb0_reports_nothing:
  assumes "mcp2515_load_txb0 sk d = Inr d'"
  shows "stats d' = stats d" and "echo_log d' = echo_log d" and "skb (priv d') = skb (priv d)"
    and "queue_stopped d' = queue_stopped d" and "wake_calls d' = wake_calls d"
    and "canintf (priv d') = canintf (priv d)" and "eflg (priv d') = eflg (priv d)"
proof -
  from assms obtain rest n where
    "d' = mcp2515_spi_async
            (d\<lparr>priv := (priv d)\<lparr>tx_buf := take 1 ((tx_buf (priv d))[0 := 0x40]) @ rest,
                                   transfer_len := n + 1,
                                   message_complete := Some Load_txb0_complete\<rparr>\<rparr>)"
    by (rule load_txb0_Inr)
  then show "stats d' = stats d" and "echo_log d' = echo_log d"
    and "skb (priv d') = skb (priv d)"
    and "queue_stopped d' = queue_stopped d" and "wake_calls d' = wake_calls d"
    and "canintf (priv d') = canintf (priv d)" and "eflg (priv d') = eflg (priv d)"
    by simp_all
qed

lemma cmds_report_nothing:
  "nothing_reported d (mcp2515_read_flags d)"
  "nothing_reported d (mcp2515_read_rxb0 d)"
  "nothing_reported d (mcp2515_read_rxb1 d)"
  "nothing_reported d (mcp2515_clear_canintf d)"
  "nothing_reported d (mcp2515_clear_eflg d)"
  "nothing_reported d (mcp2515_rts_txb0 d)"
  by (simp_all add: nothing_reported_def cmd_defs Let_def)

lemma nothing_reported_from:
  assumes "nothing_reported d1 d'" and "stats d1 = stats d" and "echo_log d1 = echo_log d"
    and "skb (priv d1) = skb (priv d)" and "queue_stopped d1 = queue_stopped d"
    and "wake_calls d1 = wake_calls d"
  shows "nothing_reported d d'"
  using assms by (simp add: nothing_reported_def)

lemma load_txb0_nothing_reported:
  assumes "mcp2515_load_txb0 sk d = Inr d'"
  shows "nothing_reported d d'"
  using load_txb0_reports_nothing [OF assms] by (simp add: nothing_reported_def)

lemma read_flags_complete_reports_nothing:
  assumes "mcp2515_read_flags_complete d = Inr d'"
  shows "nothing_reported d d' \<and> canintf (priv d') = rx_buf (priv d) ! 2"
proof -
  let ?c = "rx_buf (priv d) ! 2"
  let ?d1 = "d\<lparr>priv := (priv d)\<lparr>canintf := ?c, eflg := rx_buf (priv d) ! 3\<rparr>\<rparr>"
  consider (rx0) "?c AND CANINTF_RX0IF \<noteq> 0"
    | (rx1) "?c AND CANINTF_RX0IF = 0" "?c AND CANINTF_RX1IF \<noteq> 0"
    | (clr) "?c AND CANINTF_RX0IF = 0" "?c AND CANINTF_RX1IF = 0" "?c \<noteq> 0"
    | (tx) "?c = 0" "transmit (priv d)"
    | (irq) "?c = 0" "\<not> transmit (priv d)" "interrupt (priv d)"
    | (idle) "?c = 0" "\<not> transmit (priv d)" "\<not> interrupt (priv d)"
    by fastforce
  then show ?thesis
  proof cases
    case rx0
    then have "d' = mcp2515_read_rxb0 ?d1"
      using assms by (simp add: mcp2515_read_flags_complete_def Let_def)
    then show ?thesis
      using cmds_report_nothing(2) [of ?d1]
      by (simp add: nothing_reported_def) (simp add: cmd_defs Let_def)
  next
    case rx1
    then have "d' = mcp2515_read_rxb1 ?d1"
      using assms by (simp add: mcp2515_read_flags_complete_def Let_def)
    then show ?thesis
      using cmds_report_nothing(3) [of ?d1]
      by (simp add: nothing_reported_def) (simp add: cmd_defs Let_def)
  next
    case clr
    then have "d' = mcp2515_clear_canintf ?d1"
      using assms by (simp add: mcp2515_read_flags_complete_def Let_def)
    then show ?thesis
      using cmds_report_nothing(4) [of ?d1]
      by (simp add: nothing_reported_def) (simp add: cmd_defs Let_def)
  next
    case tx
    let ?d2 = "?d1\<lparr>priv := (priv ?d1)\<lparr>transmit := False\<rparr>\<rparr>"
    from tx have "mcp2515_load_txb0 (skb (priv ?d2)) ?d2 = Inr d'"
      using assms by (simp add: mcp2515_read_flags_complete_def Let_def)
    from load_txb0_reports_nothing [OF this] show ?thesis
      by (simp add: nothing_reported_def)
  next
    case irq
    let ?d2 = "?d1\<lparr>priv := (priv ?d1)\<lparr>interrupt := False\<rparr>\<rparr>"
    from irq have "d' = mcp2515_read_flags ?d2"
      using assms by (simp add: mcp2515_read_flags_complete_def Let_def)
    then show ?thesis
      using cmds_report_nothing(1) [of ?d2] by (simp add: nothing_reported_def)
  next
    case idle
    then have "d' = ?d1\<lparr>priv := (priv ?d1)\<lparr>busy := False\<rparr>\<rparr>"
      using assms by (simp add: mcp2515_read_flags_complete_def Let_def)
    then show ?thesis by (simp add: nothing_reported_def)
  qed
qed

lemma clear_canintf_complete_reports:
  assumes "canintf (priv d) AND CANINTF_TX0IF \<noteq> 0" and "skb (priv d) = Some s"
  shows "transmit_reported s d (mcp2515_clear_canintf_complete d)"
  using assms
  by (simp add: transmit_reported_def mcp2515_clear_canintf_complete_def Let_def
      netif_wake_queue_def can_echo_skb_def cmd_defs)

lemma clear_canintf_complete_no_flag:
  assumes "canintf (priv d) AND CANINTF_TX0IF = 0"
  shows "nothing_reported d (mcp2515_clear_canintf_complete d)"
  using assms
  by (simp add: nothing_reported_def mcp2515_clear_canintf_complete_def Let_def cmd_defs)

lemma transmit_or_read_flags_stats:
  assumes "mcp2515_transmit_or_read_flags d = Inr d'"
  shows "stats d' = stats d"
proof (cases "transmit (priv d)")
  case True
  let ?d2 = "d\<lparr>priv := (priv d)\<lparr>transmit := False\<rparr>\<rparr>"
  from True have "mcp2515_load_txb0 (skb (priv ?d2)) ?d2 = Inr d'"
    using assms by (simp add: mcp2515_transmit_or_read_flags_def Let_def)
  from load_txb0_reports_nothing(1) [OF this] show ?thesis by simp
next
  case False
  then have "d' = mcp2515_read_flags d"
    using assms by (simp add: mcp2515_transmit_or_read_flags_def)
  then show ?thesis by simp
qed

lemma read_rxb_complete_tx_packets:
  "tx_packets (stats (mcp2515_read_rxb_complete d)) = tx_packets (stats d)"
  by (simp add: mcp2515_read_rxb_complete_def netif_rx_def Let_def split: option.splits)

lemma read_rxb01_complete_tx_packets:
  "mcp2515_read_rxb0_complete d = Inr d' \<Longrightarrow> tx_packets (stats d') = tx_packets (stats d)"
  "mcp2515_read_rxb1_complete d = Inr d' \<Longrightarrow> tx_packets (stats d') = tx_packets (stats d)"
proof -
  assume "mcp2515_read_rxb0_complete d = Inr d'"
  then have "d' = mcp2515_read_rxb1 (mcp2515_read_rxb_complete d) \<or>
      mcp2515_transmit_or_read_flags (mcp2515_read_rxb_complete d) = Inr d'"
    by (simp add: mcp2515_read_rxb0_complete_def Let_def split: if_splits)
  then have "stats d' = stats (mcp2515_read_rxb_complete d)"
    using transmit_or_read_flags_stats by (auto simp: cmd_defs Let_def)
  then show "tx_packets (stats d') = tx_packets (stats d)"
    by (simp add: read_rxb_complete_tx_packets)
next
  assume "mcp2515_read_rxb1_complete d = Inr d'"
  then have "mcp2515_transmit_or_read_flags (mcp2515_read_rxb_complete d) = Inr d'"
    by (simp add: mcp2515_read_rxb1_complete_def Let_def)
  then have "stats d' = stats (mcp2515_read_rxb_complete d)"
    by (rule transmit_or_read_flags_stats)
  then show "tx_packets (stats d') = tx_packets (stats d)"
    by (simp add: read_rxb_complete_tx_packets)
qed

lemma clear_canintf_complete_tx_packets:
  assumes "tx_packets (stats (mcp2515_clear_canintf_complete d)) \<noteq> tx_packets (stats d)"
  shows "canintf (priv d) AND CANINTF_TX0IF \<noteq> 0 \<and> skb (priv d) \<noteq> None"
proof (rule ccontr)
  assume "\<not> (canintf (priv d) AND CANINTF_TX0IF \<noteq> 0 \<and> skb (priv d) \<noteq> None)"
  then have "tx_packets (stats (mcp2515_clear_canintf_complete d)) = tx_packets (stats d)"
    by (auto simp: mcp2515_clear_canintf_complete_def Let_def netif_wake_queue_def cmd_defs)
  with assms show False by simp
qed

lemma run_callback_tx_packets:
  assumes "run_callback cb d = Inr d'" and "tx_packets (stats d') \<noteq> tx_packets (stats d)"
  shows "cb = Clear_canintf_complete \<and> canintf (priv d) AND CANINTF_TX0IF \<noteq> 0 \<and>
         skb (priv d) \<noteq> None"
proof (cases cb)
  case Read_flags_complete
  with assms(1) have "mcp2515_read_flags_complete d = Inr d'" by (simp add: run_callback_def)
  from read_flags_complete_reports_nothing [OF this] assms(2) show ?thesis
    by (simp add: nothing_reported_def)
next
  case Read_rxb0_complete
  with assms(1) have "mcp2515_read_rxb0_complete d = Inr d'" by (simp add: run_callback_def)
  from read_rxb01_complete_tx_packets(1) [OF this] assms(2) show ?thesis by simp
next
  case Read_rxb1_complete
  with assms(1) have "mcp2515_read_rxb1_complete d = Inr d'" by (simp add: run_callback_def)
  from read_rxb01_complete_tx_packets(2) [OF this] assms(2) show ?thesis by simp
next
  case Clear_canintf_complete
  with assms(1) have "d' = mcp2515_clear_canintf_complete d" by (simp add: run_callback_def)
  with assms(2) clear_canintf_complete_tx_packets [of d] Clear_canintf_complete
  show ?thesis by simp
next
  case Clear_eflg_complete
  with assms show ?thesis
    by (auto simp: run_callback_def mcp2515_clear_eflg_complete_def Let_def split: if_splits)
next
  case Load_txb0_complete
  with assms show ?thesis
    by (auto simp: run_callback_def mcp2515_load_txb0_complete_def cmd_defs Let_def)
next
  case Rts_txb0_complete
  with assms show ?thesis
    by (auto simp: run_callback_def mcp2515_rts_txb0_complete_def)
qed

lemma step_tx_packets:
  assumes "step e d = Inr d'" and "tx_packets (stats d') \<noteq> tx_packets (stats d)"
  shows "completion e \<and> message_complete (priv d) = Some Clear_canintf_complete \<and>
         canintf (priv d) AND CANINTF_TX0IF \<noteq> 0 \<and> skb (priv d) \<noteq> None"
proof (cases e)
  case Interrupt
  with assms show ?thesis by (auto simp: mcp2515_interrupt_def Let_def split: if_splits)
next
  case (Start_xmit s)
  with assms(1) obtain r where r: "mcp2515_start_xmit s d = Inr (r, d')"
    by (auto split: sum.splits)
  have "tx_packets (stats d') = tx_packets (stats d)"
  proof (cases "skb_len s \<noteq> 16 \<or> 8 < can_dlc (skb_data s)")
    case True
    from start_xmit_dropped [OF this, of d] r show ?thesis by auto
  next
    case valid: False
    show ?thesis
    proof (cases "busy (priv d)")
      case True
      with valid r start_xmit_busy [of d s] show ?thesis by (auto simp: not_less)
    next
      case False
      let ?d2 = "d\<lparr>queue_stopped := True, priv := (priv d)\<lparr>skb := Some s, busy := True\<rparr>\<rparr>"
      from False valid r have "mcp2515_load_txb0 (Some s) ?d2 = Inr d'"
        by (simp add: mcp2515_start_xmit_def can_dropped_invalid_skb_def Let_def
            netif_stop_queue_def split: sum.splits)
      from load_txb0_reports_nothing(1) [OF this] show ?thesis by simp
    qed
  qed
  with assms(2) show ?thesis by simp
next
  case (Environment r a)
  with assms show ?thesis by auto
next
  case (Spi_complete reply)
  with assms(1) have sc: "spi_complete reply d = Inr d'" by simp
  show ?thesis
  proof (cases "spi_pending d")
    case Nil
    with sc have "d' = d" by (simp add: spi_complete_def)
    with assms(2) show ?thesis by simp
  next
    case (Cons m ms)
    let ?got = "take (transfer_len (priv d)) reply"
    let ?d1 = "d\<lparr>spi_pending := ms,
                 priv := (priv d)\<lparr>rx_buf := ?got @ drop (length ?got) (rx_buf (priv d))\<rparr>\<rparr>"
    from sc Cons obtain cb where cb: "message_complete (priv d) = Some cb"
      "run_callback cb ?d1 = Inr d'"
      by (auto simp: spi_complete_def Let_def split: option.splits)
    from assms(2) have "tx_packets (stats d') \<noteq> tx_packets (stats ?d1)" by simp
    from run_callback_tx_packets [OF cb(2) this] cb(1) show ?thesis
      unfolding Spi_complete by simp
  qed
qed

section \<open>The blocks make up the handlers\<close>

lemma run_blocks_interrupt:
  "run_blocks 2 At_irq_lock dev = Inr (snd (mcp2515_interrupt dev))"
  by (simp add: numeral_2_eq_2 mcp2515_interrupt_def Let_def)

lemma run_blocks_start_xmit:
  "run_blocks 3 (At_xmit_start s) dev =
     (case mcp2515_start_xmit s dev of Inl f \<Rightarrow> Inl f | Inr (r, dev') \<Rightarrow> Inr dev')"
  by (simp add: numeral_3_eq_3 mcp2515_start_xmit_def Let_def
      split: prod.splits bool.splits sum.splits)

lemma run_blocks_callback:
  "run_blocks 3 (At_callback cb) dev = run_callback cb dev"
  by (cases cb)
     (simp_all add: numeral_3_eq_3 run_callback_def mcp2515_read_flags_complete_def
       mcp2515_read_rxb0_complete_def mcp2515_read_rxb1_complete_def
       mcp2515_transmit_or_read_flags_def Let_def split: sum.splits)

section \<open>One command in flight, block by block\<close>

lemma count_without:
  assumes "i < length ts"
  shows "length (filter P (take i ts @ drop (Suc i) ts)) + (if P (ts ! i) then 1 else 0) =
         length (filter P ts)"
proof -
  have "ts = take i ts @ ts ! i # drop (Suc i) ts"
    using assms by (rule id_take_nth_drop)
  then have "length (filter P ts) =
      length (filter P (take i ts @ ts ! i # drop (Suc i) ts))" by simp
  then show ?thesis by simp
qed

lemma count_replaced:
  assumes "i < length ts"
  shows "length (filter P (ts[i := t])) + (if P (ts ! i) then 1 else 0) =
         length (filter P ts) + (if P t then 1 else 0)"
proof -
  have "ts[i := t] = take i ts @ t # drop (Suc i) ts"
    using assms by (rule upd_conv_take_nth_drop)
  then have "length (filter P (ts[i := t])) + (if P (ts ! i) then 1 else 0) =
      length (filter P (take i ts @ drop (Suc i) ts)) + (if P (ts ! i) then 1 else 0) +
      (if P t then 1 else 0)"
    by simp
  then show ?thesis using count_without [OF assms, of P] by simp
qed

lemma run_block_producer:
  assumes "producer_lock t" and "run_block t d = Inr (d', k)"
  shows "spi_pending d' = spi_pending d" and "spi_calls d' = spi_calls d"
    and "message_complete (priv d') = message_complete (priv d)" and "busy (priv d')"
    and "busy (priv d) \<Longrightarrow> k = None"
    and "\<not> busy (priv d) \<Longrightarrow> \<exists>t'. k = Some t' \<and> holds_chain t'"
  using assms by (cases t; auto split: if_splits)+

lemma run_block_xmit_start:
  assumes "run_block (At_xmit_start s) d = Inr (d', k)"
  shows "spi_pending d' = spi_pending d" and "spi_calls d' = spi_calls d"
    and "message_complete (priv d') = message_complete (priv d)"
    and "busy (priv d') = busy (priv d)"
    and "k = None \<or> k = Some (At_xmit_lock s)"
  using assms
  by (auto simp: can_dropped_invalid_skb_def netif_stop_queue_def Let_def split: if_splits)



lemma run_block_chain:
  assumes "holds_chain t" and "run_block t d = Inr (d', k)"
  shows "(\<exists>t'. k = Some t' \<and> holds_chain t' \<and> chain_kept d d') \<or>
         k = None \<and> one_issue d d' \<or>
         k = None \<and> t = At_flags_lock \<and> went_idle d d' \<and>
           message_complete (priv d') = message_complete (priv d)"
proof (cases t)
  case At_irq_lock
  with assms(1) show ?thesis by simp
next
  case (At_xmit_start s)
  with assms(1) show ?thesis by simp
next
  case (At_xmit_lock s)
  with assms(1) show ?thesis by simp
next
  case (At_callback cb)
  show ?thesis
  proof (cases cb)
    case Read_flags_complete
    let ?d1 = "d\<lparr>priv := (priv d)\<lparr>canintf := rx_buf (priv d) ! 2,
                                   eflg := rx_buf (priv d) ! 3\<rparr>\<rparr>"
    from assms(2) have
      "k = None \<and> (d' = mcp2515_read_rxb0 ?d1 \<or> d' = mcp2515_read_rxb1 ?d1 \<or>
                   d' = mcp2515_clear_canintf ?d1) \<or>
       k = Some At_flags_lock \<and> d' = ?d1"
      unfolding At_callback Read_flags_complete
      by (auto simp: Let_def split: if_splits)
    then show ?thesis
      using one_issue_cmds(2,3,4) [of ?d1]
      by (auto simp: one_issue_def chain_kept_def)
  next
    case Read_rxb0_complete
    let ?d1 = "mcp2515_read_rxb_complete d"
    from assms(2) have
      "k = None \<and> d' = mcp2515_read_rxb1 ?d1 \<or> k = Some At_transmit_or_flags_lock \<and> d' = ?d1"
      unfolding At_callback Read_rxb0_complete
      by (auto simp: Let_def split: if_splits)
    then show ?thesis
      using one_issue_cmds(3) [of ?d1]
      by (auto simp: one_issue_def chain_kept_def)
  next
    case Read_rxb1_complete
    with assms(2) show ?thesis
      unfolding At_callback by (auto simp: chain_kept_def)
  next
    case Clear_canintf_complete
    with assms(2) show ?thesis
      unfolding At_callback using clear_canintf_complete_chain [of d] by auto
  next
    case Clear_eflg_complete
    with assms(2) show ?thesis
      unfolding At_callback using other_complete_chain(1) [of d] by auto
  next
    case Load_txb0_complete
    with assms(2) show ?thesis
      unfolding At_callback using other_complete_chain(2) [of d] by auto
  next
    case Rts_txb0_complete
    with assms(2) show ?thesis
      unfolding At_callback using other_complete_chain(3) [of d] by auto
  qed
next
  case At_flags_lock
  with assms(2) show ?thesis
    by (auto simp: chain_kept_def went_idle_def split: if_splits)
next
  case At_transmit_or_flags_lock
  with assms(2) show ?thesis
    by (auto simp: chain_kept_def split: if_splits)
next
  case (Do_load_skb s)
  with assms(2) have "mcp2515_load_txb0 (Some s) d = Inr d'" "k = None"
    by (auto split: sum.splits)
  then show ?thesis using one_issue_load_txb0 by blast
next
  case Do_load_slot
  with assms(2) have "mcp2515_load_txb0 (skb (priv d)) d = Inr d'" "k = None"
    by (auto split: sum.splits)
  then show ?thesis using one_issue_load_txb0 by blast
next
  case Do_read_flags
  with assms(2) show ?thesis using one_issue_cmds(1) [of d] by auto
qed

lemma holds_chain_not_producer: "holds_chain t = (\<not> producer_lock t \<and> (\<forall>s. t \<noteq> At_xmit_start s))"
  by (cases t) simp_all

lemma task_runs_unfold:
  assumes "act (Task_runs i) m = Inr m'" and "i < length (tasks m)"
  shows "\<exists>d' k. run_block (tasks m ! i) (device m) = Inr (d', k) \<and> device m' = d' \<and>
           tasks m' = (case k of None \<Rightarrow> take i (tasks m) @ drop (Suc i) (tasks m)
                       | Some t \<Rightarrow> (tasks m)[i := t])"
  using assms by (auto split: sum.splits prod.splits option.splits)

lemma in_flight_after:
  assumes "i < length (tasks m)" and "device m' = d'"
    and "tasks m' = (case k of None \<Rightarrow> take i (tasks m) @ drop (Suc i) (tasks m)
                     | Some t \<Rightarrow> (tasks m)[i := t])"
  shows "in_flight m' + (if holds_chain (tasks m ! i) then 1 else 0) +
           length (spi_pending (device m)) =
         in_flight m + (case k of None \<Rightarrow> 0 | Some t \<Rightarrow> if holds_chain t then 1 else 0) +
           length (spi_pending d')"
proof (cases k)
  case None
  with assms(3) have "tasks m' = take i (tasks m) @ drop (Suc i) (tasks m)" by simp
  with count_without [OF assms(1), of holds_chain] assms(2) None show ?thesis
    by (simp add: in_flight_def)
next
  case (Some t)
  with assms(3) have "tasks m' = (tasks m)[i := t]" by simp
  with count_replaced [OF assms(1), of holds_chain t] assms(2) Some show ?thesis
    by (simp add: in_flight_def)
qed

lemma chain_task_in_flight:
  assumes "i < length ts" and "holds_chain (ts ! i)"
  shows "0 < length (filter holds_chain ts)"
  using assms by (metis filter_empty_conv length_greater_0_conv nth_mem)



lemma act_task_runs:
  assumes inv: "machine_inv m" and st: "act (Task_runs i) m = Inr m'"
  shows "machine_inv m' \<and> act_ok (Task_runs i) m m'"
proof (cases "i < length (tasks m)")
  case False
  with st have "m' = m" by simp
  with inv show ?thesis by (simp add: act_ok_def)
next
  case True
  let ?t = "tasks m ! i"
  let ?d = "device m"
  from task_runs_unfold [OF st True] obtain d' k where
    rb: "run_block ?t ?d = Inr (d', k)" and dev: "device m' = d'"
    and ts: "tasks m' = (case k of None \<Rightarrow> take i (tasks m) @ drop (Suc i) (tasks m)
                         | Some t \<Rightarrow> (tasks m)[i := t])"
    by blast
  note fl = in_flight_after [OF True dev ts]
  from inv have i1: "in_flight m \<le> 1" and i2: "in_flight m = 0 \<or> busy (priv ?d)"
    and i3: "spi_pending ?d = [] \<or> message_complete (priv ?d) \<noteq> None"
    by (simp_all add: machine_inv_def)
  consider (start) s where "?t = At_xmit_start s" | (lock) "producer_lock ?t" | (chain) "holds_chain ?t"
    using holds_chain_not_producer [of ?t] by blast
  then show ?thesis
  proof cases
    case start
    from rb have r: "run_block (At_xmit_start s) ?d = Inr (d', k)" by (simp add: start)
    note x = run_block_xmit_start [OF r]
    from x(5) fl start x(1) have "in_flight m' = in_flight m" by auto
    with inv x(1-4) dev show ?thesis
      by (simp add: machine_inv_def act_ok_def)
  next
    case lock
    then have nc: "\<not> holds_chain ?t" by (simp add: holds_chain_not_producer)
    note p = run_block_producer [OF lock rb]
    show ?thesis
    proof (cases "busy (priv ?d)")
      case True
      with p(5) have "k = None" by simp
      with fl nc p(1) have "in_flight m' = in_flight m" by simp
      with inv p(1-4) dev True show ?thesis
        by (simp add: machine_inv_def act_ok_def)
    next
      case False
      with i2 have zero: "in_flight m = 0" by simp
      from False p(6) obtain t' where "k = Some t'" "holds_chain t'" by blast
      with fl nc p(1) zero have one: "in_flight m' = 1" by simp
      from zero have "spi_pending ?d = []" by (simp add: in_flight_def)
      with p(1) have "spi_pending d' = []" by simp
      with one p(2,4) dev False zero lock \<open>i < length (tasks m)\<close> show ?thesis
        by (auto simp: machine_inv_def act_ok_def)
    qed
  next
    case chain
    with True have pos: "0 < length (filter holds_chain (tasks m))"
      by (rule chain_task_in_flight)
    with i1 have "length (spi_pending ?d) = 0" and one: "in_flight m = 1"
      unfolding in_flight_def by linarith+
    then have nopend: "spi_pending ?d = []" by simp
    from one i2 have b: "busy (priv ?d)" by simp
    from run_block_chain [OF chain rb]
    consider (kept) t' where "k = Some t'" "holds_chain t'" "chain_kept ?d d'"
      | (issue) "k = None" "one_issue ?d d'"
      | (idle) "k = None" "?t = At_flags_lock" "went_idle ?d d'"
      by blast
    then show ?thesis
    proof cases
      case kept
      with fl chain have "in_flight m' = in_flight m" by (simp add: chain_kept_def)
      with inv kept(3) dev show ?thesis
        by (simp add: machine_inv_def act_ok_def chain_kept_def)
    next
      case issue
      note o = one_issueD [OF issue(2)]
      from fl chain issue(1) nopend have "in_flight m' + 1 = in_flight m + length (spi_pending d')"
        by simp
      with one o(4) nopend have "in_flight m' = length (spi_pending d')" "in_flight m' \<le> 1"
        by simp_all
      with o(1,2,3) b dev one chain True show ?thesis
        by (auto simp: machine_inv_def act_ok_def)
    next
      case idle
      from fl chain idle(1,3) nopend have "in_flight m' + 1 = in_flight m"
        by (simp add: went_idle_def)
      with one have zero: "in_flight m' = 0" by simp
      with idle(2,3) b dev nopend True show ?thesis
        by (auto simp: machine_inv_def act_ok_def went_idle_def)
    qed
  qed
qed

lemma act_keeps_inv:
  assumes inv: "machine_inv m" and st: "act a m = Inr m'"
  shows "machine_inv m' \<and> act_ok a m m'"
proof (cases a)
  case Irq_raised
  with st have "m' = m\<lparr>tasks := tasks m @ [At_irq_lock]\<rparr>" by simp
  with inv show ?thesis by (simp add: machine_inv_def act_ok_def in_flight_def)
next
  case (Frame_submitted s)
  with st have "m' = m\<lparr>tasks := tasks m @ [At_xmit_start s]\<rparr>" by simp
  with inv show ?thesis by (simp add: machine_inv_def act_ok_def in_flight_def)
next
  case (Environment_changes r b)
  with st inv show ?thesis by (auto simp: machine_inv_def act_ok_def in_flight_def)
next
  case (Task_runs i)
  with inv st show ?thesis using act_task_runs by simp
next
  case (Transfer_done reply)
  show ?thesis
  proof (cases "spi_pending (device m)")
    case Nil
    with st Transfer_done have "m' = m" by (simp add: Let_def)
    with inv show ?thesis by (simp add: act_ok_def)
  next
    case (Cons msg msgs)
    let ?got = "take (transfer_len (priv (device m))) reply"
    let ?d1 = "(device m)\<lparr>spi_pending := msgs,
                 priv := (priv (device m))
                   \<lparr>rx_buf := ?got @ drop (length ?got) (rx_buf (priv (device m)))\<rparr>\<rparr>"
    from st Transfer_done Cons obtain cb where
      m': "m' = m\<lparr>device := ?d1, tasks := tasks m @ [At_callback cb]\<rparr>"
      by (auto simp: Let_def split: option.splits)
    from inv Cons have "msgs = []" "busy (priv (device m))"
      by (auto simp: machine_inv_def in_flight_def)
    with inv Cons m' show ?thesis
      by (auto simp: machine_inv_def act_ok_def in_flight_def)
  qed
qed

lemma machine_inv_init: "machine_inv machine_init"
  by (simp add: machine_inv_def machine_init_def in_flight_def dev_init_def)

lemma acts_keep_inv:
  "machine_inv m \<Longrightarrow> acts as m = Inr m' \<Longrightarrow> machine_inv m'"
proof (induction as arbitrary: m)
  case Nil
  then show ?case by simp
next
  case (Cons a as)
  from Cons.prems(2) obtain m1 where m1: "act a m = Inr m1" and rest: "acts as m1 = Inr m'"
    by (auto split: sum.splits)
  from act_keeps_inv [OF Cons.prems(1) m1] have "machine_inv m1" by simp
  then show ?case using rest by (rule Cons.IH)
qed

lemma runs_task_iff:
  "runs_task P a m = (\<exists>i. a = Task_runs i \<and> i < length (tasks m) \<and> P (tasks m ! i))"
  by (cases a) auto

lemma is_flags_lock_iff: "is_flags_lock t = (t = At_flags_lock)"
  by (cases t) simp_all

section \<open>One outstanding command, the handlers as single steps\<close>

text \<open>
  A first, coarse view: each handler runs as one step, from its entry to its return.
  Start from the initial device and let interrupts, submissions, completions and changes
  of the environment happen in any order. In every state reached, and after any further
  step, at most one command is outstanding, and while one is outstanding \<open>busy\<close> is set.
  A step calls \<open>spi_async\<close> at most once, and when it does it is either a producer that
  found \<open>busy\<close> clear and set it, or the completion of the outstanding command, with
  \<open>busy\<close> still set afterwards. A step that clears \<open>busy\<close> issues nothing and leaves
  nothing outstanding.
\<close>

theorem at_most_one_outstanding:
  assumes "exec es dev_init = Inr d" and "step e d = Inr d'"
  shows "length (spi_pending d) \<le> 1 \<and> length (spi_pending d') \<le> 1 \<and>
         (spi_pending d \<noteq> [] \<longrightarrow> busy (priv d)) \<and>
         (spi_calls d' \<noteq> spi_calls d \<longrightarrow>
            spi_calls d' = spi_calls d + 1 \<and>
            (producer e \<and> \<not> busy (priv d) \<and> busy (priv d') \<or>
             completion e \<and> spi_pending d \<noteq> [] \<and> busy (priv d'))) \<and>
         (busy (priv d) \<and> \<not> busy (priv d') \<longrightarrow>
            spi_calls d' = spi_calls d \<and> spi_pending d' = [])"
proof -
  from chain_inv_init assms(1) have inv: "chain_inv d" by (rule exec_chain_inv)
  from step_chain [OF inv assms(2)] inv show ?thesis
    by (auto simp: chain_inv_def)
qed

theorem at_most_one_outstanding_witness:
  "exec [Interrupt, Start_xmit skb_123] dev_init = Inr dev_irq_xmit \<and>
   step (Spi_complete [0, 0, 0, 0]) dev_irq_xmit = Inr dev_irq_xmit_next \<and>
   spi_pending dev_irq_xmit = [[3, 0x2c, 0, 0]] \<and>
   spi_pending dev_irq_xmit_next = [[0x40, 0x24, 0x60, 0, 0, 3, 1, 2, 3]] \<and>
   busy (priv dev_irq_xmit) \<and> busy (priv dev_irq_xmit_next) \<and>
   spi_calls dev_irq_xmit_next = spi_calls dev_irq_xmit + 1 \<and>
   exec [Interrupt] dev_init = Inr dev_irq \<and>
   step (Spi_complete [0, 0, 0, 0]) dev_irq = Inr dev_irq_next \<and>
   busy (priv dev_irq) \<and> \<not> busy (priv dev_irq_next) \<and>
   spi_calls dev_irq_next = spi_calls dev_irq \<and> spi_pending dev_irq_next = []"
proof -
  have run1: "exec [Interrupt, Start_xmit skb_123] dev_init = Inr dev_irq_xmit"
    by (simp add: dev_irq_xmit_def eval_defs skb_123_def)
  have st1: "step (Spi_complete [0, 0, 0, 0]) dev_irq_xmit = Inr dev_irq_xmit_next"
    by (simp add: dev_irq_xmit_next_def dev_irq_xmit_def eval_defs skb_123_def)
  have run2: "exec [Interrupt] dev_init = Inr dev_irq"
    by (simp add: dev_irq_def eval_defs)
  have st2: "step (Spi_complete [0, 0, 0, 0]) dev_irq = Inr dev_irq_next"
    by (simp add: dev_irq_next_def dev_irq_def eval_defs)
  have obs1: "spi_pending dev_irq_xmit = [[3, 0x2c, 0, 0]]"
    "spi_pending dev_irq_xmit_next = [[0x40, 0x24, 0x60, 0, 0, 3, 1, 2, 3]]"
    "spi_calls dev_irq_xmit_next \<noteq> spi_calls dev_irq_xmit"
    by (simp_all add: dev_irq_xmit_next_def dev_irq_xmit_def eval_defs skb_123_def)
  have obs2: "busy (priv dev_irq)" "\<not> busy (priv dev_irq_next)"
    by (simp_all add: dev_irq_next_def dev_irq_def eval_defs)
  from at_most_one_outstanding [OF run1 st1] at_most_one_outstanding [OF run2 st2]
    run1 st1 run2 st2 obs1 obs2
  show ?thesis by simp
qed

section \<open>One outstanding command under interleaving\<close>

text \<open>
  Claim C1. Start from the initial device and let interrupts, submissions and completions
  arrive in any order, the handlers interleaved at their lock boundaries: a handler may
  be entered while others are between two of their blocks. In every state reached, and
  after any further activity, at most one message is outstanding on the transport and at
  most one command is in flight, counting the outstanding message and the tasks that are
  about to issue or are handling a completion; while one is in flight \<open>busy\<close> is set. An
  activity calls \<open>spi_async\<close> at most once, and only in a block of a task that holds the
  chain. The number in flight grows only in the lock section of a producer that finds
  \<open>busy\<close> clear and sets it. \<open>busy\<close> is cleared only in the lock section of the flags
  completion, which issues nothing and leaves nothing in flight.
\<close>

theorem one_command_in_flight:
  assumes "acts as machine_init = Inr m" and "act a m = Inr m'"
  shows "length (spi_pending (device m)) \<le> 1 \<and> in_flight m \<le> 1 \<and> in_flight m' \<le> 1 \<and>
         (in_flight m = 0 \<or> busy (priv (device m))) \<and>
         (spi_calls (device m') \<noteq> spi_calls (device m) \<longrightarrow>
            spi_calls (device m') = spi_calls (device m) + 1 \<and> runs_task holds_chain a m) \<and>
         (in_flight m < in_flight m' \<longrightarrow>
            \<not> busy (priv (device m)) \<and> busy (priv (device m')) \<and>
            runs_task producer_lock a m) \<and>
         (busy (priv (device m)) \<and> \<not> busy (priv (device m')) \<longrightarrow>
            spi_calls (device m') = spi_calls (device m) \<and> in_flight m' = 0 \<and>
            runs_task is_flags_lock a m)"
proof -
  from machine_inv_init assms(1) have inv: "machine_inv m" by (rule acts_keep_inv)
  from act_keeps_inv [OF inv assms(2)] have inv': "machine_inv m'" and ok: "act_ok a m m'"
    by simp_all
  from inv have "in_flight m \<le> 1" "in_flight m = 0 \<or> busy (priv (device m))"
    by (simp_all add: machine_inv_def)
  moreover from this(1) have "length (spi_pending (device m)) \<le> 1"
    by (simp add: in_flight_def)
  moreover from inv' have "in_flight m' \<le> 1" by (simp add: machine_inv_def)
  moreover from ok have "spi_calls (device m') \<noteq> spi_calls (device m) \<longrightarrow>
            spi_calls (device m') = spi_calls (device m) + 1 \<and> runs_task holds_chain a m"
    unfolding act_ok_def runs_task_iff by blast
  moreover from ok have "in_flight m < in_flight m' \<longrightarrow>
            \<not> busy (priv (device m)) \<and> busy (priv (device m')) \<and>
            runs_task producer_lock a m"
    unfolding act_ok_def runs_task_iff by blast
  moreover from ok have "busy (priv (device m)) \<and> \<not> busy (priv (device m')) \<longrightarrow>
            spi_calls (device m') = spi_calls (device m) \<and> in_flight m' = 0 \<and>
            runs_task is_flags_lock a m"
    unfolding act_ok_def runs_task_iff is_flags_lock_iff by blast
  ultimately show ?thesis by blast
qed

theorem one_command_in_flight_witness:
  "acts [Irq_raised, Frame_submitted skb_123, Task_runs 1, Task_runs 0, Task_runs 1]
     machine_init = Inr machine_racing \<and>
   act (Task_runs 0) machine_racing = Inr machine_racing_next \<and>
   tasks machine_racing = [Do_read_flags] \<and> spi_pending (device machine_racing) = [] \<and>
   transmit (priv (device machine_racing)) \<and>
   tasks machine_racing_next = [] \<and>
   spi_pending (device machine_racing_next) = [[3, 0x2c, 0, 0]] \<and>
   spi_calls (device machine_racing_next) = spi_calls (device machine_racing) + 1 \<and>
   in_flight machine_racing = 1 \<and> in_flight machine_racing_next = 1 \<and>
   acts [Irq_raised] machine_init = Inr machine_irq \<and>
   act (Task_runs 0) machine_irq = Inr machine_irq_next \<and>
   in_flight machine_irq = 0 \<and> in_flight machine_irq_next = 1 \<and>
   \<not> busy (priv (device machine_irq)) \<and> busy (priv (device machine_irq_next)) \<and>
   acts [Irq_raised, Task_runs 0, Task_runs 0, Transfer_done [0, 0, 0, 0], Task_runs 0]
     machine_init = Inr machine_ending \<and>
   act (Task_runs 0) machine_ending = Inr machine_ending_next \<and>
   busy (priv (device machine_ending)) \<and> \<not> busy (priv (device machine_ending_next)) \<and>
   in_flight machine_ending_next = 0 \<and>
   spi_calls (device machine_ending_next) = spi_calls (device machine_ending)"
proof -
  have r1: "acts [Irq_raised, Frame_submitted skb_123, Task_runs 1, Task_runs 0, Task_runs 1]
      machine_init = Inr machine_racing"
    by (simp add: machine_racing_def machine_init_def eval_defs skb_123_def)
  have s1: "act (Task_runs 0) machine_racing = Inr machine_racing_next"
    by (simp add: machine_racing_next_def machine_racing_def machine_init_def eval_defs
        skb_123_def)
  have o1: "tasks machine_racing = [Do_read_flags]" "spi_pending (device machine_racing) = []"
    "transmit (priv (device machine_racing))"
    "tasks machine_racing_next = []"
    "spi_pending (device machine_racing_next) = [[3, 0x2c, 0, 0]]"
    "spi_calls (device machine_racing_next) \<noteq> spi_calls (device machine_racing)"
    by (simp_all add: machine_racing_next_def machine_racing_def machine_init_def eval_defs
        skb_123_def)
  have f1: "in_flight machine_racing = 1" "in_flight machine_racing_next = 1"
    by (simp_all add: in_flight_def o1)
  have r2: "acts [Irq_raised] machine_init = Inr machine_irq"
    by (simp add: machine_irq_def machine_init_def)
  have s2: "act (Task_runs 0) machine_irq = Inr machine_irq_next"
    by (simp add: machine_irq_next_def machine_irq_def machine_init_def eval_defs)
  have f2: "in_flight machine_irq = 0" "in_flight machine_irq_next = 1"
    by (simp_all add: in_flight_def machine_irq_next_def machine_irq_def machine_init_def
        eval_defs)
  have r3: "acts [Irq_raised, Task_runs 0, Task_runs 0, Transfer_done [0, 0, 0, 0], Task_runs 0]
      machine_init = Inr machine_ending"
    by (simp add: machine_ending_def machine_init_def eval_defs)
  have s3: "act (Task_runs 0) machine_ending = Inr machine_ending_next"
    by (simp add: machine_ending_next_def machine_ending_def machine_init_def eval_defs)
  have o3: "busy (priv (device machine_ending))" "\<not> busy (priv (device machine_ending_next))"
    by (simp_all add: machine_ending_next_def machine_ending_def machine_init_def eval_defs)
  have c1: "spi_calls (device machine_racing_next) = spi_calls (device machine_racing) + 1"
    using one_command_in_flight [OF r1 s1] o1(6) by blast
  have c2: "\<not> busy (priv (device machine_irq))" "busy (priv (device machine_irq_next))"
    using one_command_in_flight [OF r2 s2] f2 by simp_all
  have c3: "in_flight machine_ending_next = 0"
    "spi_calls (device machine_ending_next) = spi_calls (device machine_ending)"
    using one_command_in_flight [OF r3 s3] o3 by blast+
  show ?thesis
    by (intro conjI r1 s1 o1(1-5) c1 f1 r2 s2 f2 c2 r3 s3 o3 c3)
qed

section \<open>After the clear-error command\<close>

text \<open>
  Claim C8. When the clear-error command has completed, the overflow counter
  \<open>rx_over_errors\<close> has grown by exactly one if the error snapshot has the overflow bit of
  receive buffer 0 or that of receive buffer 1 (by one, not two, when it has both), and is
  unchanged otherwise; in either case the next command issued is the read of the status
  and error registers, with \<open>mcp2515_read_flags_complete\<close> as its callback.
\<close>

theorem clear_eflg_complete_counts_overflow_once:
  assumes "length (tx_buf (priv dev)) = 14"
  shows "rx_over_errors (stats (mcp2515_clear_eflg_complete dev)) =
           rx_over_errors (stats dev) +
             (if eflg (priv dev) AND EFLG_RX0OVR \<noteq> 0 \<or> eflg (priv dev) AND EFLG_RX1OVR \<noteq> 0
              then 1 else 0) \<and>
         issued dev (mcp2515_clear_eflg_complete dev) [3, 0x2c, 0, 0] Read_flags_complete"
proof -
  let ?over = "eflg (priv dev) AND (EFLG_RX0OVR OR EFLG_RX1OVR) \<noteq> 0"
  let ?d1 = "if ?over then dev\<lparr>stats := (stats dev)
                \<lparr>rx_over_errors := rx_over_errors (stats dev) + 1\<rparr>\<rparr> else dev"
  have unfold: "mcp2515_clear_eflg_complete dev = mcp2515_read_flags ?d1"
    by (simp add: mcp2515_clear_eflg_complete_def)
  have "issued ?d1 (mcp2515_read_flags ?d1) [3, 0x2c, 0, 0] Read_flags_complete"
    using assms by (intro read_flags_issued) simp
  then have "issued dev (mcp2515_read_flags ?d1) [3, 0x2c, 0, 0] Read_flags_complete"
    by (rule issued_from) simp_all
  moreover have "rx_over_errors (stats (mcp2515_read_flags ?d1)) =
           rx_over_errors (stats dev) +
             (if eflg (priv dev) AND EFLG_RX0OVR \<noteq> 0 \<or> eflg (priv dev) AND EFLG_RX1OVR \<noteq> 0
              then 1 else 0)"
    by (simp add: and_or_nz)
  ultimately show ?thesis
    unfolding unfold by simp
qed

theorem clear_eflg_complete_counts_overflow_once_witness:
  "length (tx_buf (priv dev_both_overflows)) = 14 \<and>
   eflg (priv dev_both_overflows) AND EFLG_RX0OVR \<noteq> 0 \<and>
   eflg (priv dev_both_overflows) AND EFLG_RX1OVR \<noteq> 0 \<and>
   rx_over_errors (stats (mcp2515_clear_eflg_complete dev_both_overflows)) = 1 \<and>
   issued dev_both_overflows (mcp2515_clear_eflg_complete dev_both_overflows)
     [3, 0x2c, 0, 0] Read_flags_complete"
proof -
  have len: "length (tx_buf (priv dev_both_overflows)) = 14"
    by (simp add: dev_both_overflows_def dev_init_def priv_init_def)
  have bits: "eflg (priv dev_both_overflows) AND EFLG_RX0OVR \<noteq> 0"
    "eflg (priv dev_both_overflows) AND EFLG_RX1OVR \<noteq> 0"
    by (simp_all add: dev_both_overflows_def dev_init_def priv_init_def EFLG_RX0OVR_def
        EFLG_RX1OVR_def)
  have zero: "rx_over_errors (stats dev_both_overflows) = 0"
    by (simp add: dev_both_overflows_def dev_init_def stats_init_def)
  from clear_eflg_complete_counts_overflow_once [OF len] bits zero len
  show ?thesis by simp
qed

section \<open>Transmit-complete bit with an empty slot\<close>

text \<open>
  Claim C10. When the clear-status completion runs with the transmit-complete bit in the
  status snapshot and an empty transmit slot, no counter changes and nothing is echoed or
  delivered upward; the slot is empty afterwards and \<open>netif_wake_queue\<close> is called, so the
  queue is awake.
\<close>

theorem clear_canintf_complete_empty_slot:
  assumes "canintf (priv dev) AND CANINTF_TX0IF \<noteq> 0" and "skb (priv dev) = None"
  shows "stats (mcp2515_clear_canintf_complete dev) = stats dev \<and>
         echo_log (mcp2515_clear_canintf_complete dev) = echo_log dev \<and>
         netif_rx_log (mcp2515_clear_canintf_complete dev) = netif_rx_log dev \<and>
         skb (priv (mcp2515_clear_canintf_complete dev)) = None \<and>
         \<not> queue_stopped (mcp2515_clear_canintf_complete dev) \<and>
         wake_calls (mcp2515_clear_canintf_complete dev) = wake_calls dev + 1"
  using assms
  by (simp add: mcp2515_clear_canintf_complete_def Let_def netif_wake_queue_def cmd_defs)

theorem clear_canintf_complete_empty_slot_witness:
  "canintf (priv dev_tx_flag_empty_slot) AND CANINTF_TX0IF \<noteq> 0 \<and>
   skb (priv dev_tx_flag_empty_slot) = None \<and>
   queue_stopped dev_tx_flag_empty_slot \<and>
   stats (mcp2515_clear_canintf_complete dev_tx_flag_empty_slot) = stats_init \<and>
   echo_log (mcp2515_clear_canintf_complete dev_tx_flag_empty_slot) = [] \<and>
   skb (priv (mcp2515_clear_canintf_complete dev_tx_flag_empty_slot)) = None \<and>
   \<not> queue_stopped (mcp2515_clear_canintf_complete dev_tx_flag_empty_slot) \<and>
   wake_calls (mcp2515_clear_canintf_complete dev_tx_flag_empty_slot) = 1"
proof -
  have flag: "canintf (priv dev_tx_flag_empty_slot) AND CANINTF_TX0IF \<noteq> 0"
    by (simp add: dev_tx_flag_empty_slot_def dev_init_def priv_init_def CANINTF_TX0IF_def)
  have slot: "skb (priv dev_tx_flag_empty_slot) = None"
    by (simp add: dev_tx_flag_empty_slot_def dev_init_def priv_init_def)
  have before: "queue_stopped dev_tx_flag_empty_slot" "stats dev_tx_flag_empty_slot = stats_init"
    "echo_log dev_tx_flag_empty_slot = []" "wake_calls dev_tx_flag_empty_slot = 0"
    by (simp_all add: dev_tx_flag_empty_slot_def dev_init_def)
  from clear_canintf_complete_empty_slot [OF flag slot] flag slot before
  show ?thesis by simp
qed

section \<open>After the flags read\<close>

text \<open>
  Claim C5. Let \<open>c\<close> be the status byte of the flags reply. The completion of the flags
  read chooses, in this order: with the receive-buffer-0 bit in \<open>c\<close>, the read of receive
  buffer 0; else with the receive-buffer-1 bit, the read of receive buffer 1; else with any
  other bit, the bit-modify of the status register whose mask is \<open>c\<close> without the two
  receive bits; else with \<open>transmit\<close> pending, it clears that flag and loads transmit
  buffer 0 with the frame of the slot (stated for a slot that holds an accepted frame);
  else with \<open>interrupt\<close> pending, it clears that flag and reads the flags again; else it
  clears \<open>busy\<close> and issues nothing. Of all steps of the driver, only this last branch
  takes \<open>busy\<close> from set to clear.
\<close>

theorem read_flags_complete_priority:
  assumes "length (tx_buf (priv dev)) = 14" and "rx_buf (priv dev) ! 2 = c"
  shows
    "(c AND CANINTF_RX0IF \<noteq> 0 \<longrightarrow>
        (\<exists>dev'. mcp2515_read_flags_complete dev = Inr dev' \<and>
           issued dev dev' (0x90 # replicate 13 0) Read_rxb0_complete \<and>
           flags_kept dev dev')) \<and>
     (c AND CANINTF_RX0IF = 0 \<and> c AND CANINTF_RX1IF \<noteq> 0 \<longrightarrow>
        (\<exists>dev'. mcp2515_read_flags_complete dev = Inr dev' \<and>
           issued dev dev' (0x94 # replicate 13 0) Read_rxb1_complete \<and>
           flags_kept dev dev')) \<and>
     (c AND CANINTF_RX0IF = 0 \<and> c AND CANINTF_RX1IF = 0 \<and> c \<noteq> 0 \<longrightarrow>
        (\<exists>dev'. mcp2515_read_flags_complete dev = Inr dev' \<and>
           issued dev dev' [5, 0x2c, c AND NOT (CANINTF_RX0IF OR CANINTF_RX1IF), 0]
             Clear_canintf_complete \<and>
           flags_kept dev dev')) \<and>
     (c = 0 \<and> transmit (priv dev) \<longrightarrow>
        (\<forall>s. skb (priv dev) = Some s \<and> accepted_skb s \<longrightarrow>
           (\<exists>dev'. mcp2515_read_flags_complete dev = Inr dev' \<and>
              issued dev dev' (0x40 # txb0_bytes s) Load_txb0_complete \<and>
              \<not> transmit (priv dev') \<and> busy (priv dev') = busy (priv dev) \<and>
              interrupt (priv dev') = interrupt (priv dev)))) \<and>
     (c = 0 \<and> \<not> transmit (priv dev) \<and> interrupt (priv dev) \<longrightarrow>
        (\<exists>dev'. mcp2515_read_flags_complete dev = Inr dev' \<and>
           issued dev dev' [3, 0x2c, 0, 0] Read_flags_complete \<and>
           \<not> interrupt (priv dev') \<and> busy (priv dev') = busy (priv dev) \<and>
           \<not> transmit (priv dev'))) \<and>
     (c = 0 \<and> \<not> transmit (priv dev) \<and> \<not> interrupt (priv dev) \<longrightarrow>
        (\<exists>dev'. mcp2515_read_flags_complete dev = Inr dev' \<and>
           \<not> busy (priv dev') \<and> spi_calls dev' = spi_calls dev \<and>
           spi_pending dev' = spi_pending dev \<and>
           \<not> transmit (priv dev') \<and> \<not> interrupt (priv dev'))) \<and>
     (step e d = Inr d' \<and> busy (priv d) \<and> \<not> busy (priv d') \<longrightarrow>
        completion e \<and> spi_pending d \<noteq> [] \<and>
        message_complete (priv d) = Some Read_flags_complete \<and>
        canintf (priv d') = 0 \<and> \<not> transmit (priv d) \<and> \<not> interrupt (priv d))"
proof -
  have rx0: "c AND CANINTF_RX0IF \<noteq> 0 \<longrightarrow>
        (\<exists>dev'. mcp2515_read_flags_complete dev = Inr dev' \<and>
           issued dev dev' (0x90 # replicate 13 0) Read_rxb0_complete \<and>
           flags_kept dev dev')"
    using assms(2) read_flags_complete_rx0 [of dev] by simp
  have rx1: "c AND CANINTF_RX0IF = 0 \<and> c AND CANINTF_RX1IF \<noteq> 0 \<longrightarrow>
        (\<exists>dev'. mcp2515_read_flags_complete dev = Inr dev' \<and>
           issued dev dev' (0x94 # replicate 13 0) Read_rxb1_complete \<and>
           flags_kept dev dev')"
    using assms(2) read_flags_complete_rx1 [of dev] by simp
  have clr: "c AND CANINTF_RX0IF = 0 \<and> c AND CANINTF_RX1IF = 0 \<and> c \<noteq> 0 \<longrightarrow>
        (\<exists>dev'. mcp2515_read_flags_complete dev = Inr dev' \<and>
           issued dev dev' [5, 0x2c, c AND NOT (CANINTF_RX0IF OR CANINTF_RX1IF), 0]
             Clear_canintf_complete \<and>
           flags_kept dev dev')"
    using read_flags_complete_clear [OF assms] by blast
  have tx: "c = 0 \<and> transmit (priv dev) \<longrightarrow>
        (\<forall>s. skb (priv dev) = Some s \<and> accepted_skb s \<longrightarrow>
           (\<exists>dev'. mcp2515_read_flags_complete dev = Inr dev' \<and>
              issued dev dev' (0x40 # txb0_bytes s) Load_txb0_complete \<and>
              \<not> transmit (priv dev') \<and> busy (priv dev') = busy (priv dev) \<and>
              interrupt (priv dev') = interrupt (priv dev)))"
    using read_flags_complete_transmit [OF assms(1), of _] assms(2) by blast
  have irq: "c = 0 \<and> \<not> transmit (priv dev) \<and> interrupt (priv dev) \<longrightarrow>
        (\<exists>dev'. mcp2515_read_flags_complete dev = Inr dev' \<and>
           issued dev dev' [3, 0x2c, 0, 0] Read_flags_complete \<and>
           \<not> interrupt (priv dev') \<and> busy (priv dev') = busy (priv dev) \<and>
           \<not> transmit (priv dev'))"
    using read_flags_complete_repoll [OF assms(1)] assms(2) by blast
  have idle: "c = 0 \<and> \<not> transmit (priv dev) \<and> \<not> interrupt (priv dev) \<longrightarrow>
        (\<exists>dev'. mcp2515_read_flags_complete dev = Inr dev' \<and>
           \<not> busy (priv dev') \<and> spi_calls dev' = spi_calls dev \<and>
           spi_pending dev' = spi_pending dev \<and>
           \<not> transmit (priv dev') \<and> \<not> interrupt (priv dev'))"
    using read_flags_complete_idle [of dev] assms(2) by blast
  have only: "step e d = Inr d' \<and> busy (priv d) \<and> \<not> busy (priv d') \<longrightarrow>
        completion e \<and> spi_pending d \<noteq> [] \<and>
        message_complete (priv d) = Some Read_flags_complete \<and>
        canintf (priv d') = 0 \<and> \<not> transmit (priv d) \<and> \<not> interrupt (priv d)"
    using step_clears_busy [of e d d'] by blast
  from rx0 rx1 clr tx irq idle only show ?thesis
    by (intro conjI)
qed

theorem read_flags_complete_priority_witness:
  "length (tx_buf (priv dev_status_24)) = 14 \<and> rx_buf (priv dev_status_24) ! 2 = 0x24 \<and>
   (\<exists>dev'. mcp2515_read_flags_complete dev_status_24 = Inr dev' \<and>
      issued dev_status_24 dev' [5, 0x2c, 0x24, 0] Clear_canintf_complete \<and>
      flags_kept dev_status_24 dev') \<and>
   length (tx_buf (priv dev_transmit_pending)) = 14 \<and>
   rx_buf (priv dev_transmit_pending) ! 2 = 0 \<and> transmit (priv dev_transmit_pending) \<and>
   skb (priv dev_transmit_pending) = Some skb_123 \<and> accepted_skb skb_123 \<and>
   (\<exists>dev'. mcp2515_read_flags_complete dev_transmit_pending = Inr dev' \<and>
      issued dev_transmit_pending dev' [0x40, 0x24, 0x60, 0, 0, 3, 1, 2, 3]
        Load_txb0_complete \<and>
      \<not> transmit (priv dev')) \<and>
   step (Spi_complete [0, 0, 0, 0]) dev_irq = Inr dev_irq_next \<and>
   busy (priv dev_irq) \<and> \<not> busy (priv dev_irq_next) \<and>
   message_complete (priv dev_irq) = Some Read_flags_complete \<and>
   canintf (priv dev_irq_next) = 0"
proof -
  have a: "length (tx_buf (priv dev_status_24)) = 14" "rx_buf (priv dev_status_24) ! 2 = 0x24"
    by (simp_all add: dev_status_24_def dev_init_def priv_init_def)
  have b: "length (tx_buf (priv dev_transmit_pending)) = 14"
    "rx_buf (priv dev_transmit_pending) ! 2 = 0"
    "transmit (priv dev_transmit_pending)" "skb (priv dev_transmit_pending) = Some skb_123"
    by (simp_all add: dev_transmit_pending_def dev_init_def priv_init_def replicate_numeral)
  have acc: "accepted_skb skb_123"
    by (simp add: accepted_skb_def skb_123_def)
  have bytes: "txb0_bytes skb_123 = [0x24, 0x60, 0, 0, 3, 1, 2, 3]"
    by (simp add: txb0_bytes_def skb_123_def eval_defs)
  have mask: "(0x24 :: u8) AND CANINTF_RX0IF = 0" "(0x24 :: u8) AND CANINTF_RX1IF = 0"
    "(0x24 :: u8) AND NOT (CANINTF_RX0IF OR CANINTF_RX1IF) = 0x24"
    by (simp_all add: CANINTF_RX0IF_def CANINTF_RX1IF_def)
  have st: "step (Spi_complete [0, 0, 0, 0]) dev_irq = Inr dev_irq_next"
    "busy (priv dev_irq)" "\<not> busy (priv dev_irq_next)"
    by (simp_all add: dev_irq_next_def dev_irq_def eval_defs)
  note first = read_flags_complete_priority
    [OF a, where e = "Spi_complete [0, 0, 0, 0]" and d = dev_irq and d' = dev_irq_next]
  note second = read_flags_complete_priority [OF b(1,2)]
  have clr: "\<exists>dev'. mcp2515_read_flags_complete dev_status_24 = Inr dev' \<and>
      issued dev_status_24 dev' [5, 0x2c, 0x24, 0] Clear_canintf_complete \<and>
      flags_kept dev_status_24 dev'"
    using first mask by simp
  have only: "message_complete (priv dev_irq) = Some Read_flags_complete \<and>
      canintf (priv dev_irq_next) = 0"
    using first st by simp
  have "\<exists>dev'. mcp2515_read_flags_complete dev_transmit_pending = Inr dev' \<and>
      issued dev_transmit_pending dev' (0x40 # txb0_bytes skb_123) Load_txb0_complete \<and>
      \<not> transmit (priv dev') \<and> busy (priv dev') = busy (priv dev_transmit_pending) \<and>
      interrupt (priv dev') = interrupt (priv dev_transmit_pending)"
    using second b(3,4) acc by simp
  then have tx: "\<exists>dev'. mcp2515_read_flags_complete dev_transmit_pending = Inr dev' \<and>
      issued dev_transmit_pending dev' [0x40, 0x24, 0x60, 0, 0, 3, 1, 2, 3]
        Load_txb0_complete \<and>
      \<not> transmit (priv dev')"
    unfolding bytes by blast
  from a b acc clr tx st only show ?thesis by simp
qed

section \<open>Allocation failure on the receive path\<close>

text \<open>
  Claim C9. When \<open>alloc_can_skb\<close> fails in the completion of a receive-buffer read, the
  frame is dropped: \<open>rx_dropped\<close> grows by one, the receive counters stay, nothing is handed
  to \<open>netif_rx\<close>. The chain goes on with the command it would issue anyway: after buffer 0
  the read of buffer 1 when its bit is in the status snapshot; otherwise, and always after
  buffer 1, the load of transmit buffer 0 when a transmission is pending (stated for a slot
  that holds an accepted frame), else the flags read.
\<close>

theorem read_rxb_complete_alloc_failure:
  assumes "\<not> alloc_ok dev" and "length (tx_buf (priv dev)) = 14"
  shows
    "(canintf (priv dev) AND CANINTF_RX1IF \<noteq> 0 \<longrightarrow>
        (\<exists>dev'. mcp2515_read_rxb0_complete dev = Inr dev' \<and> frame_dropped dev dev' \<and>
           issued dev dev' (0x94 # replicate 13 0) Read_rxb1_complete)) \<and>
     (canintf (priv dev) AND CANINTF_RX1IF = 0 \<and> \<not> transmit (priv dev) \<longrightarrow>
        (\<exists>dev'. mcp2515_read_rxb0_complete dev = Inr dev' \<and> frame_dropped dev dev' \<and>
           issued dev dev' [3, 0x2c, 0, 0] Read_flags_complete)) \<and>
     (canintf (priv dev) AND CANINTF_RX1IF = 0 \<and> transmit (priv dev) \<longrightarrow>
        (\<forall>s. skb (priv dev) = Some s \<and> accepted_skb s \<longrightarrow>
           (\<exists>dev'. mcp2515_read_rxb0_complete dev = Inr dev' \<and> frame_dropped dev dev' \<and>
              issued dev dev' (0x40 # txb0_bytes s) Load_txb0_complete))) \<and>
     (\<not> transmit (priv dev) \<longrightarrow>
        (\<exists>dev'. mcp2515_read_rxb1_complete dev = Inr dev' \<and> frame_dropped dev dev' \<and>
           issued dev dev' [3, 0x2c, 0, 0] Read_flags_complete)) \<and>
     (transmit (priv dev) \<longrightarrow>
        (\<forall>s. skb (priv dev) = Some s \<and> accepted_skb s \<longrightarrow>
           (\<exists>dev'. mcp2515_read_rxb1_complete dev = Inr dev' \<and> frame_dropped dev dev' \<and>
              issued dev dev' (0x40 # txb0_bytes s) Load_txb0_complete)))"
proof -
  have a: "canintf (priv dev) AND CANINTF_RX1IF \<noteq> 0 \<longrightarrow>
        (\<exists>dev'. mcp2515_read_rxb0_complete dev = Inr dev' \<and> frame_dropped dev dev' \<and>
           issued dev dev' (0x94 # replicate 13 0) Read_rxb1_complete)"
    using read_rxb0_complete_no_memory_rx1 [OF assms(1)] by blast
  have b: "canintf (priv dev) AND CANINTF_RX1IF = 0 \<and> \<not> transmit (priv dev) \<longrightarrow>
        (\<exists>dev'. mcp2515_read_rxb0_complete dev = Inr dev' \<and> frame_dropped dev dev' \<and>
           issued dev dev' [3, 0x2c, 0, 0] Read_flags_complete)"
    using no_memory_then_idle [OF assms] by (simp add: read_rxb0_complete_no_rx1)
  have c: "canintf (priv dev) AND CANINTF_RX1IF = 0 \<and> transmit (priv dev) \<longrightarrow>
        (\<forall>s. skb (priv dev) = Some s \<and> accepted_skb s \<longrightarrow>
           (\<exists>dev'. mcp2515_read_rxb0_complete dev = Inr dev' \<and> frame_dropped dev dev' \<and>
              issued dev dev' (0x40 # txb0_bytes s) Load_txb0_complete))"
    using no_memory_then_pending [OF assms] by (simp add: read_rxb0_complete_no_rx1)
  have d: "\<not> transmit (priv dev) \<longrightarrow>
        (\<exists>dev'. mcp2515_read_rxb1_complete dev = Inr dev' \<and> frame_dropped dev dev' \<and>
           issued dev dev' [3, 0x2c, 0, 0] Read_flags_complete)"
    using no_memory_then_idle [OF assms] by (simp add: read_rxb1_complete_unfold)
  have e: "transmit (priv dev) \<longrightarrow>
        (\<forall>s. skb (priv dev) = Some s \<and> accepted_skb s \<longrightarrow>
           (\<exists>dev'. mcp2515_read_rxb1_complete dev = Inr dev' \<and> frame_dropped dev dev' \<and>
              issued dev dev' (0x40 # txb0_bytes s) Load_txb0_complete))"
    using no_memory_then_pending [OF assms] by (simp add: read_rxb1_complete_unfold)
  from a b c d e show ?thesis by (intro conjI)
qed

theorem read_rxb_complete_alloc_failure_witness:
  "\<not> alloc_ok dev_no_memory_rx1 \<and> length (tx_buf (priv dev_no_memory_rx1)) = 14 \<and>
   canintf (priv dev_no_memory_rx1) AND CANINTF_RX1IF \<noteq> 0 \<and>
   (\<exists>dev'. mcp2515_read_rxb0_complete dev_no_memory_rx1 = Inr dev' \<and>
      frame_dropped dev_no_memory_rx1 dev' \<and>
      issued dev_no_memory_rx1 dev' (0x94 # replicate 13 0) Read_rxb1_complete) \<and>
   \<not> alloc_ok dev_no_memory \<and> length (tx_buf (priv dev_no_memory)) = 14 \<and>
   canintf (priv dev_no_memory) AND CANINTF_RX1IF = 0 \<and> \<not> transmit (priv dev_no_memory) \<and>
   (\<exists>dev'. mcp2515_read_rxb0_complete dev_no_memory = Inr dev' \<and>
      frame_dropped dev_no_memory dev' \<and>
      issued dev_no_memory dev' [3, 0x2c, 0, 0] Read_flags_complete) \<and>
   (\<exists>dev'. mcp2515_read_rxb1_complete dev_no_memory = Inr dev' \<and>
      frame_dropped dev_no_memory dev' \<and>
      issued dev_no_memory dev' [3, 0x2c, 0, 0] Read_flags_complete) \<and>
   \<not> alloc_ok dev_no_memory_tx \<and> length (tx_buf (priv dev_no_memory_tx)) = 14 \<and>
   transmit (priv dev_no_memory_tx) \<and> skb (priv dev_no_memory_tx) = Some skb_123 \<and>
   accepted_skb skb_123 \<and>
   (\<exists>dev'. mcp2515_read_rxb1_complete dev_no_memory_tx = Inr dev' \<and>
      frame_dropped dev_no_memory_tx dev' \<and>
      issued dev_no_memory_tx dev' (0x40 # txb0_bytes skb_123) Load_txb0_complete)"
proof -
  have h1: "\<not> alloc_ok dev_no_memory_rx1" "length (tx_buf (priv dev_no_memory_rx1)) = 14"
    and f1: "canintf (priv dev_no_memory_rx1) AND CANINTF_RX1IF \<noteq> 0"
    by (simp_all add: dev_no_memory_rx1_def dev_init_def priv_init_def CANINTF_RX1IF_def)
  have h2: "\<not> alloc_ok dev_no_memory" "length (tx_buf (priv dev_no_memory)) = 14"
    and f2: "canintf (priv dev_no_memory) AND CANINTF_RX1IF = 0"
      "\<not> transmit (priv dev_no_memory)"
    by (simp_all add: dev_no_memory_def dev_init_def priv_init_def)
  have h3: "\<not> alloc_ok dev_no_memory_tx" "length (tx_buf (priv dev_no_memory_tx)) = 14"
    and f3: "transmit (priv dev_no_memory_tx)" "skb (priv dev_no_memory_tx) = Some skb_123"
    by (simp_all add: dev_no_memory_tx_def dev_transmit_pending_def dev_init_def priv_init_def)
  have acc: "accepted_skb skb_123"
    by (simp add: accepted_skb_def skb_123_def)
  have w1: "\<exists>dev'. mcp2515_read_rxb0_complete dev_no_memory_rx1 = Inr dev' \<and>
      frame_dropped dev_no_memory_rx1 dev' \<and>
      issued dev_no_memory_rx1 dev' (0x94 # replicate 13 0) Read_rxb1_complete"
    using read_rxb_complete_alloc_failure [OF h1] f1 by simp
  have w2: "\<exists>dev'. mcp2515_read_rxb0_complete dev_no_memory = Inr dev' \<and>
      frame_dropped dev_no_memory dev' \<and>
      issued dev_no_memory dev' [3, 0x2c, 0, 0] Read_flags_complete"
    "\<exists>dev'. mcp2515_read_rxb1_complete dev_no_memory = Inr dev' \<and>
      frame_dropped dev_no_memory dev' \<and>
      issued dev_no_memory dev' [3, 0x2c, 0, 0] Read_flags_complete"
    using read_rxb_complete_alloc_failure [OF h2] f2 by simp_all
  have w3: "\<exists>dev'. mcp2515_read_rxb1_complete dev_no_memory_tx = Inr dev' \<and>
      frame_dropped dev_no_memory_tx dev' \<and>
      issued dev_no_memory_tx dev' (0x40 # txb0_bytes skb_123) Load_txb0_complete"
    using read_rxb_complete_alloc_failure [OF h3] f3 acc by simp
  from h1 f1 w1 h2 f2 w2 h3 f3 acc w3 show ?thesis by (intro conjI)
qed

section \<open>The first command of a producer\<close>

text \<open>
  Claim C4, as the spec has it, makes every producer that finds the device idle start with
  the read of the status and error registers. A submission does not: on the idle device
  the submitted frame \<open>skb_123\<close> is answered with the load of transmit buffer 0, first byte
  0x40, and \<open>message.complete\<close> is \<open>mcp2515_load_txb0_complete\<close>.
\<close>

theorem start_xmit_idle_loads_first:
  "\<not> busy (priv dev_init) \<and>
   mcp2515_start_xmit skb_123 dev_init = Inr (NETDEV_TX_OK, dev_xmit_idle) \<and>
   busy (priv dev_xmit_idle) \<and>
   spi_pending dev_xmit_idle = [[0x40, 0x24, 0x60, 0, 0, 3, 1, 2, 3]] \<and>
   message_complete (priv dev_xmit_idle) = Some Load_txb0_complete \<and>
   \<not> issued dev_init dev_xmit_idle [3, 0x2c, 0, 0] Read_flags_complete"
  by (simp add: dev_xmit_idle_def issued_def eval_defs skb_123_def)

text \<open>
  Claim C4, amended. An interrupt that finds \<open>busy\<close> clear sets it and issues the read of
  the status and error registers as its first command. A submission of an accepted frame
  that finds \<open>busy\<close> clear stops the queue, stores the frame in the slot, sets \<open>busy\<close> and
  issues the load of transmit buffer 0 with the bytes of that frame as its first command.
  A producer that finds \<open>busy\<close> set issues nothing: the interrupt changes nothing but
  \<open>interrupt\<close>, which it sets; the submission stops the queue, stores the frame in the slot
  and sets \<open>transmit\<close>, and changes nothing else.
\<close>

theorem producer_first_command:
  assumes "length (tx_buf (priv dev)) = 14"
  shows
    "(\<not> busy (priv dev) \<longrightarrow>
        (\<exists>dev'. mcp2515_interrupt dev = (IRQ_HANDLED, dev') \<and> busy (priv dev') \<and>
           issued dev dev' [3, 0x2c, 0, 0] Read_flags_complete \<and>
           interrupt (priv dev') = interrupt (priv dev) \<and>
           transmit (priv dev') = transmit (priv dev))) \<and>
     (\<not> busy (priv dev) \<and> accepted_skb s \<longrightarrow>
        (\<exists>dev'. mcp2515_start_xmit s dev = Inr (NETDEV_TX_OK, dev') \<and> busy (priv dev') \<and>
           skb (priv dev') = Some s \<and> queue_stopped dev' \<and>
           issued dev dev' (0x40 # txb0_bytes s) Load_txb0_complete \<and>
           interrupt (priv dev') = interrupt (priv dev) \<and>
           transmit (priv dev') = transmit (priv dev))) \<and>
     (busy (priv dev) \<longrightarrow>
        mcp2515_interrupt dev =
          (IRQ_HANDLED, dev\<lparr>priv := (priv dev)\<lparr>interrupt := True\<rparr>\<rparr>)) \<and>
     (busy (priv dev) \<and> accepted_skb s \<longrightarrow>
        mcp2515_start_xmit s dev =
          Inr (NETDEV_TX_OK,
               dev\<lparr>queue_stopped := True,
                   priv := (priv dev)\<lparr>skb := Some s, transmit := True\<rparr>\<rparr>))"
proof -
  have a: "\<not> busy (priv dev) \<longrightarrow>
        (\<exists>dev'. mcp2515_interrupt dev = (IRQ_HANDLED, dev') \<and> busy (priv dev') \<and>
           issued dev dev' [3, 0x2c, 0, 0] Read_flags_complete \<and>
           interrupt (priv dev') = interrupt (priv dev) \<and>
           transmit (priv dev') = transmit (priv dev))"
    using interrupt_idle [OF assms] by blast
  have b: "\<not> busy (priv dev) \<and> accepted_skb s \<longrightarrow>
        (\<exists>dev'. mcp2515_start_xmit s dev = Inr (NETDEV_TX_OK, dev') \<and> busy (priv dev') \<and>
           skb (priv dev') = Some s \<and> queue_stopped dev' \<and>
           issued dev dev' (0x40 # txb0_bytes s) Load_txb0_complete \<and>
           interrupt (priv dev') = interrupt (priv dev) \<and>
           transmit (priv dev') = transmit (priv dev))"
    using start_xmit_idle [OF assms] by blast
  have c: "busy (priv dev) \<longrightarrow>
        mcp2515_interrupt dev =
          (IRQ_HANDLED, dev\<lparr>priv := (priv dev)\<lparr>interrupt := True\<rparr>\<rparr>)"
    using interrupt_busy by blast
  have d: "busy (priv dev) \<and> accepted_skb s \<longrightarrow>
        mcp2515_start_xmit s dev =
          Inr (NETDEV_TX_OK,
               dev\<lparr>queue_stopped := True,
                   priv := (priv dev)\<lparr>skb := Some s, transmit := True\<rparr>\<rparr>)"
    using start_xmit_busy [of dev s] by (simp add: accepted_skb_def)
  from a b c d show ?thesis by (intro conjI)
qed

theorem producer_first_command_witness:
  "length (tx_buf (priv dev_init)) = 14 \<and> \<not> busy (priv dev_init) \<and> accepted_skb skb_123 \<and>
   (\<exists>dev'. mcp2515_interrupt dev_init = (IRQ_HANDLED, dev') \<and> busy (priv dev') \<and>
      issued dev_init dev' [3, 0x2c, 0, 0] Read_flags_complete) \<and>
   (\<exists>dev'. mcp2515_start_xmit skb_123 dev_init = Inr (NETDEV_TX_OK, dev') \<and>
      busy (priv dev') \<and> skb (priv dev') = Some skb_123 \<and> queue_stopped dev' \<and>
      issued dev_init dev' (0x40 # txb0_bytes skb_123) Load_txb0_complete) \<and>
   length (tx_buf (priv dev_busy)) = 14 \<and> busy (priv dev_busy) \<and>
   mcp2515_interrupt dev_busy =
     (IRQ_HANDLED, dev_busy\<lparr>priv := (priv dev_busy)\<lparr>interrupt := True\<rparr>\<rparr>) \<and>
   mcp2515_start_xmit skb_123 dev_busy =
     Inr (NETDEV_TX_OK,
          dev_busy\<lparr>queue_stopped := True,
                   priv := (priv dev_busy)\<lparr>skb := Some skb_123, transmit := True\<rparr>\<rparr>)"
proof -
  have i: "length (tx_buf (priv dev_init)) = 14" "\<not> busy (priv dev_init)"
    by (simp_all add: dev_init_def priv_init_def)
  have b: "length (tx_buf (priv dev_busy)) = 14" "busy (priv dev_busy)"
    by (simp_all add: dev_busy_def dev_init_def priv_init_def)
  have acc: "accepted_skb skb_123"
    by (simp add: accepted_skb_def skb_123_def)
  note idle = producer_first_command [OF i(1), of skb_123]
  note busy = producer_first_command [OF b(1), of skb_123]
  have w1: "\<exists>dev'. mcp2515_interrupt dev_init = (IRQ_HANDLED, dev') \<and> busy (priv dev') \<and>
      issued dev_init dev' [3, 0x2c, 0, 0] Read_flags_complete"
    using idle i(2) by blast
  have w2: "\<exists>dev'. mcp2515_start_xmit skb_123 dev_init = Inr (NETDEV_TX_OK, dev') \<and>
      busy (priv dev') \<and> skb (priv dev') = Some skb_123 \<and> queue_stopped dev' \<and>
      issued dev_init dev' (0x40 # txb0_bytes skb_123) Load_txb0_complete"
    using idle i(2) acc by blast
  have w3: "mcp2515_interrupt dev_busy =
     (IRQ_HANDLED, dev_busy\<lparr>priv := (priv dev_busy)\<lparr>interrupt := True\<rparr>\<rparr>)"
    using busy b(2) by blast
  have w4: "mcp2515_start_xmit skb_123 dev_busy =
     Inr (NETDEV_TX_OK,
          dev_busy\<lparr>queue_stopped := True,
                   priv := (priv dev_busy)\<lparr>skb := Some skb_123, transmit := True\<rparr>\<rparr>)"
    using busy b(2) acc by blast
  from i acc w1 w2 b w3 w4 show ?thesis by (intro conjI)
qed

section \<open>Submission while busy\<close>

text \<open>
  Claim C2, as the spec has it, makes a submission that finds \<open>busy\<close> set return
  busy-rejected and leave the transmit slot alone. On the busy device with an empty slot
  the submission of \<open>skb_123\<close> returns \<open>NETDEV_TX_OK\<close>, and the slot holds the frame
  afterwards.
\<close>

theorem start_xmit_busy_accepts_and_stores:
  "busy (priv dev_busy) \<and> skb (priv dev_busy) = None \<and>
   mcp2515_start_xmit skb_123 dev_busy = Inr (NETDEV_TX_OK, dev_xmit_busy) \<and>
   NETDEV_TX_OK \<noteq> NETDEV_TX_BUSY \<and>
   skb (priv dev_xmit_busy) = Some skb_123 \<and>
   skb (priv dev_xmit_busy) \<noteq> skb (priv dev_busy)"
  by (simp add: dev_xmit_busy_def dev_busy_def eval_defs skb_123_def)

text \<open>
  Claim C2, amended. A submission never returns busy-rejected: whenever
  \<open>mcp2515_start_xmit\<close> returns, it returns \<open>NETDEV_TX_OK\<close>, and for an accepted frame
  it does return. Called while \<open>busy\<close> is set with a frame that
  \<open>can_dropped_invalid_skb\<close> lets through, it stops the queue, overwrites the transmit
  slot with the submitted frame and sets \<open>transmit\<close>, and issues no command. The slot is
  left alone only for a frame that \<open>can_dropped_invalid_skb\<close> drops, which is counted in
  \<open>tx_dropped\<close>, busy or not.
\<close>

theorem start_xmit_never_rejects:
  "(mcp2515_start_xmit s dev = Inr (r, dev') \<longrightarrow> r = NETDEV_TX_OK) \<and>
   (length (tx_buf (priv dev)) = 14 \<and> accepted_skb s \<longrightarrow>
      (\<exists>dev''. mcp2515_start_xmit s dev = Inr (NETDEV_TX_OK, dev''))) \<and>
   (busy (priv dev) \<and> skb_len s = 16 \<and> can_dlc (skb_data s) \<le> 8 \<longrightarrow>
      (\<exists>dev''. mcp2515_start_xmit s dev = Inr (NETDEV_TX_OK, dev'') \<and>
         skb (priv dev'') = Some s \<and> transmit (priv dev'') \<and> queue_stopped dev'' \<and>
         spi_calls dev'' = spi_calls dev \<and> spi_pending dev'' = spi_pending dev \<and>
         busy (priv dev''))) \<and>
   (skb_len s \<noteq> 16 \<or> 8 < can_dlc (skb_data s) \<longrightarrow>
      (\<exists>dev''. mcp2515_start_xmit s dev = Inr (NETDEV_TX_OK, dev'') \<and>
         skb (priv dev'') = skb (priv dev) \<and>
         tx_dropped (stats dev'') = tx_dropped (stats dev) + 1 \<and>
         spi_calls dev'' = spi_calls dev))"
proof -
  have a: "mcp2515_start_xmit s dev = Inr (r, dev') \<longrightarrow> r = NETDEV_TX_OK"
    using start_xmit_result by blast
  have b: "length (tx_buf (priv dev)) = 14 \<and> accepted_skb s \<longrightarrow>
      (\<exists>dev''. mcp2515_start_xmit s dev = Inr (NETDEV_TX_OK, dev''))"
  proof (cases "busy (priv dev)")
    case True
    then show ?thesis using start_xmit_busy [of dev s] by (simp add: accepted_skb_def)
  next
    case False
    then show ?thesis using start_xmit_idle [of dev s] by blast
  qed
  have c: "busy (priv dev) \<and> skb_len s = 16 \<and> can_dlc (skb_data s) \<le> 8 \<longrightarrow>
      (\<exists>dev''. mcp2515_start_xmit s dev = Inr (NETDEV_TX_OK, dev'') \<and>
         skb (priv dev'') = Some s \<and> transmit (priv dev'') \<and> queue_stopped dev'' \<and>
         spi_calls dev'' = spi_calls dev \<and> spi_pending dev'' = spi_pending dev \<and>
         busy (priv dev''))"
    using start_xmit_busy [of dev s] by simp
  have d: "skb_len s \<noteq> 16 \<or> 8 < can_dlc (skb_data s) \<longrightarrow>
      (\<exists>dev''. mcp2515_start_xmit s dev = Inr (NETDEV_TX_OK, dev'') \<and>
         skb (priv dev'') = skb (priv dev) \<and>
         tx_dropped (stats dev'') = tx_dropped (stats dev) + 1 \<and>
         spi_calls dev'' = spi_calls dev)"
    using start_xmit_dropped [of s dev] by simp
  from a b c d show ?thesis by (intro conjI)
qed

theorem start_xmit_never_rejects_witness:
  "mcp2515_start_xmit skb_123 dev_busy = Inr (NETDEV_TX_OK, dev_xmit_busy) \<and>
   length (tx_buf (priv dev_busy)) = 14 \<and> accepted_skb skb_123 \<and>
   busy (priv dev_busy) \<and> skb_len skb_123 = 16 \<and> can_dlc (skb_data skb_123) \<le> 8 \<and>
   (\<exists>dev''. mcp2515_start_xmit skb_123 dev_busy = Inr (NETDEV_TX_OK, dev'') \<and>
      skb (priv dev'') = Some skb_123 \<and> transmit (priv dev'') \<and> queue_stopped dev'' \<and>
      spi_calls dev'' = spi_calls dev_busy \<and> spi_pending dev'' = spi_pending dev_busy \<and>
      busy (priv dev'')) \<and>
   8 < can_dlc (skb_data skb_dlc_9) \<and>
   (\<exists>dev''. mcp2515_start_xmit skb_dlc_9 dev_busy = Inr (NETDEV_TX_OK, dev'') \<and>
      skb (priv dev'') = skb (priv dev_busy) \<and>
      tx_dropped (stats dev'') = tx_dropped (stats dev_busy) + 1 \<and>
      spi_calls dev'' = spi_calls dev_busy)"
proof -
  have run: "mcp2515_start_xmit skb_123 dev_busy = Inr (NETDEV_TX_OK, dev_xmit_busy)"
    by (simp add: dev_xmit_busy_def dev_busy_def eval_defs skb_123_def)
  have b: "length (tx_buf (priv dev_busy)) = 14" "busy (priv dev_busy)"
    by (simp_all add: dev_busy_def dev_init_def priv_init_def)
  have acc: "accepted_skb skb_123" "skb_len skb_123 = 16" "can_dlc (skb_data skb_123) \<le> 8"
    by (simp_all add: accepted_skb_def skb_123_def)
  have long: "8 < can_dlc (skb_data skb_dlc_9)"
    by (simp add: skb_dlc_9_def)
  note ok = start_xmit_never_rejects [of skb_123 dev_busy NETDEV_TX_OK dev_xmit_busy]
  note dropped = start_xmit_never_rejects [of skb_dlc_9 dev_busy NETDEV_TX_OK dev_busy]
  have w1: "\<exists>dev''. mcp2515_start_xmit skb_123 dev_busy = Inr (NETDEV_TX_OK, dev'') \<and>
      skb (priv dev'') = Some skb_123 \<and> transmit (priv dev'') \<and> queue_stopped dev'' \<and>
      spi_calls dev'' = spi_calls dev_busy \<and> spi_pending dev'' = spi_pending dev_busy \<and>
      busy (priv dev'')"
    using ok b(2) acc(2,3) by blast
  have w2: "\<exists>dev''. mcp2515_start_xmit skb_dlc_9 dev_busy = Inr (NETDEV_TX_OK, dev'') \<and>
      skb (priv dev'') = skb (priv dev_busy) \<and>
      tx_dropped (stats dev'') = tx_dropped (stats dev_busy) + 1 \<and>
      spi_calls dev'' = spi_calls dev_busy"
    using dropped long by blast
  from run b(1) acc(1) b(2) acc(2,3) w1 long w2 show ?thesis by (intro conjI)
qed

section \<open>Decoding what was encoded\<close>

text \<open>
  Claim C3, as the spec has it, lets the decoder return the remote-request flag of every
  valid frame it is given the encoded bytes of. The valid standard frame \<open>skb_rtr_123\<close>
  has the flag; \<open>mcp2515_set_txbuf\<close> puts it into bit 6 of the length byte (0x42) and
  leaves bit 4 of the second identifier byte clear (0x60), which is where the decoder
  looks for it in a standard frame: the decoded frame has no remote-request flag.
\<close>

theorem standard_remote_request_lost:
  "valid_frame (skb_data skb_rtr_123) \<and>
   can_id (skb_data skb_rtr_123) AND CAN_EFF_FLAG = 0 \<and>
   can_id (skb_data skb_rtr_123) AND CAN_RTR_FLAG \<noteq> 0 \<and>
   mcp2515_set_txbuf (replicate 13 0) (Some skb_rtr_123) =
     Inr ([0x24, 0x60, 0, 0, 0x42, 1, 2, 0, 0, 0, 0, 0, 0], 7) \<and>
   can_id (rxb_frame (0x40 # [0x24, 0x60, 0, 0, 0x42, 1, 2, 0, 0, 0, 0, 0, 0])) AND
     CAN_RTR_FLAG = 0"
  by (simp add: valid_frame_def skb_rtr_123_def eval_defs CAN_EFF_MASK_def CAN_SFF_MASK_def)

text \<open>
  Claim C3, amended. For every valid frame, \<open>mcp2515_set_txbuf\<close> succeeds on a 13 byte
  buffer, and decoding the bytes it wrote (behind any first byte, where the instruction
  sits) gives a frame with the same identifier value, the same extended flag, the same
  length and the same first \<open>length\<close> payload bytes. The remote-request flag is the same
  when the frame is extended; for a standard frame the decoded flag is always clear.
\<close>

theorem encode_decode_round_trip:
  assumes "valid_frame (skb_data s)" and "length buf = 13"
  shows "\<exists>rest. mcp2515_set_txbuf buf (Some s) = Inr (rest, 5 + unat (can_dlc (skb_data s))) \<and>
           can_id (rxb_frame (i # rest)) AND CAN_EFF_MASK =
             can_id (skb_data s) AND CAN_EFF_MASK \<and>
           can_id (rxb_frame (i # rest)) AND CAN_EFF_FLAG =
             can_id (skb_data s) AND CAN_EFF_FLAG \<and>
           can_id (rxb_frame (i # rest)) AND CAN_RTR_FLAG =
             (if can_id (skb_data s) AND CAN_EFF_FLAG \<noteq> 0
              then can_id (skb_data s) AND CAN_RTR_FLAG else 0) \<and>
           can_dlc (rxb_frame (i # rest)) = can_dlc (skb_data s) \<and>
           take (unat (can_dlc (skb_data s))) (data (rxb_frame (i # rest))) =
             take (unat (can_dlc (skb_data s))) (data (skb_data s))"
proof -
  let ?f = "skb_data s"
  let ?w = "can_id ?f"
  let ?d = "can_dlc ?f"
  note v = valid_frameD [OF assms(1)]
  have fits: "5 + unat ?d \<le> length buf" "unat ?d \<le> length (data ?f)"
    using v(2,3) assms(2) by simp_all
  note shape = set_txbuf_shape [OF fits]
  show ?thesis
  proof (cases "?w AND CAN_EFF_FLAG \<noteq> 0")
    case True
    let ?rest = "[ucast (drop_bit 21 ?w),
                  ucast (drop_bit 13 ?w AND 0xe0 OR 8 OR drop_bit 16 ?w AND 3),
                  ucast (drop_bit 8 ?w), ucast ?w] @
                 [if ?w AND CAN_RTR_FLAG \<noteq> 0 then ?d OR 0x40 else ?d] @
                 take (unat ?d) (data ?f) @ drop (5 + unat ?d) buf"
    have enc: "mcp2515_set_txbuf buf (Some s) = Inr (?rest, 5 + unat ?d)"
      using shape True by simp
    have cid: "can_id (rxb_frame (i # ?rest)) = ?w"
      using True v(4) v(1) by (rule decode_encoded_ext)
    have dl: "can_dlc (rxb_frame (i # ?rest)) = ?d"
      "take (unat ?d) (data (rxb_frame (i # ?rest))) = take (unat ?d) (data ?f)"
      using v(1) fits(2) by (rule decode_encoded_dlc)+
    have c1: "can_id (rxb_frame (i # ?rest)) AND CAN_EFF_MASK = ?w AND CAN_EFF_MASK"
      and c2: "can_id (rxb_frame (i # ?rest)) AND CAN_EFF_FLAG = ?w AND CAN_EFF_FLAG"
      by (simp_all only: cid)
    have c3: "can_id (rxb_frame (i # ?rest)) AND CAN_RTR_FLAG =
        (if ?w AND CAN_EFF_FLAG \<noteq> 0 then ?w AND CAN_RTR_FLAG else 0)"
      unfolding cid using True by simp
    show ?thesis
      by (intro exI [of _ ?rest] conjI enc c1 c2 c3 dl)
  next
    case False
    then have std: "?w AND CAN_EFF_FLAG = 0" by simp
    let ?rest = "[ucast (drop_bit 3 ?w), ucast (push_bit 5 ?w), 0, 0] @
                 [if ?w AND CAN_RTR_FLAG \<noteq> 0 then ?d OR 0x40 else ?d] @
                 take (unat ?d) (data ?f) @ drop (5 + unat ?d) buf"
    have enc: "mcp2515_set_txbuf buf (Some s) = Inr (?rest, 5 + unat ?d)"
      using shape False by simp
    have cid: "can_id (rxb_frame (i # ?rest)) = ?w AND CAN_EFF_MASK"
      using v(5) [OF std] by (rule decode_encoded_std)
    have dl: "can_dlc (rxb_frame (i # ?rest)) = ?d"
      "take (unat ?d) (data (rxb_frame (i # ?rest))) = take (unat ?d) (data ?f)"
      using v(1) fits(2) by (rule decode_encoded_dlc)+
    have c1: "can_id (rxb_frame (i # ?rest)) AND CAN_EFF_MASK = ?w AND CAN_EFF_MASK"
      by (simp only: cid mask_flag_disjoint)
    have c2: "can_id (rxb_frame (i # ?rest)) AND CAN_EFF_FLAG = ?w AND CAN_EFF_FLAG"
      by (simp only: cid mask_flag_disjoint std)
    have c3: "can_id (rxb_frame (i # ?rest)) AND CAN_RTR_FLAG =
        (if ?w AND CAN_EFF_FLAG \<noteq> 0 then ?w AND CAN_RTR_FLAG else 0)"
      unfolding cid using False by (simp add: mask_flag_disjoint)
    show ?thesis
      by (intro exI [of _ ?rest] conjI enc c1 c2 c3 dl)
  qed
qed

theorem encode_decode_round_trip_witness:
  "valid_frame (skb_data skb_ext_rtr) \<and> length (replicate 13 (0 :: u8)) = 13 \<and>
   (\<exists>rest. mcp2515_set_txbuf (replicate 13 0) (Some skb_ext_rtr) = Inr (rest, 13) \<and>
      can_id (rxb_frame (0x40 # rest)) AND CAN_EFF_MASK = 0x1ABCDEF1 \<and>
      can_id (rxb_frame (0x40 # rest)) AND CAN_EFF_FLAG = CAN_EFF_FLAG \<and>
      can_id (rxb_frame (0x40 # rest)) AND CAN_RTR_FLAG = CAN_RTR_FLAG \<and>
      can_dlc (rxb_frame (0x40 # rest)) = 8 \<and>
      take 8 (data (rxb_frame (0x40 # rest))) = [1, 2, 3, 4, 5, 6, 7, 8])"
proof -
  have v: "valid_frame (skb_data skb_ext_rtr)"
    by (simp add: valid_frame_def skb_ext_rtr_def CAN_ERR_FLAG_def CAN_EFF_FLAG_def)
  have l: "length (replicate 13 (0 :: u8)) = 13" by simp
  have f: "can_id (skb_data skb_ext_rtr) AND CAN_EFF_MASK = 0x1ABCDEF1"
    "can_id (skb_data skb_ext_rtr) AND CAN_EFF_FLAG = CAN_EFF_FLAG"
    "can_id (skb_data skb_ext_rtr) AND CAN_RTR_FLAG = CAN_RTR_FLAG"
    "CAN_EFF_FLAG \<noteq> 0"
    "can_dlc (skb_data skb_ext_rtr) = 8" "unat (8 :: u8) = 8"
    "data (skb_data skb_ext_rtr) = [1, 2, 3, 4, 5, 6, 7, 8]"
    by (simp_all add: skb_ext_rtr_def CAN_EFF_MASK_def CAN_EFF_FLAG_def CAN_RTR_FLAG_def)
  from encode_decode_round_trip [OF v l, of "0x40"] v l show ?thesis
    by (simp add: f)
qed

section \<open>Where the remote-request flag goes\<close>

text \<open>
  Claim C7, as the spec has it, makes the encoder set the substitute-remote-request bit
  of the second identifier byte for a standard remote-request frame. For \<open>skb_rtr_123\<close>
  that bit (0x10 of the byte 0x60) is clear, and the flag is in bit 6 of the length byte.
\<close>

theorem standard_remote_request_in_length_byte:
  "can_id (skb_data skb_rtr_123) AND CAN_EFF_FLAG = 0 \<and>
   can_id (skb_data skb_rtr_123) AND CAN_RTR_FLAG \<noteq> 0 \<and>
   mcp2515_set_txbuf (replicate 13 0) (Some skb_rtr_123) =
     Inr ([0x24, 0x60, 0, 0, 0x42, 1, 2, 0, 0, 0, 0, 0, 0], 7) \<and>
   [0x24, 0x60, 0, 0, 0x42, 1, 2, 0, 0, 0, 0, 0, 0 :: u8] ! 1 AND RXBSIDL_SRR = 0 \<and>
   [0x24, 0x60, 0, 0, 0x42, 1, 2, 0, 0, 0, 0, 0, 0 :: u8] ! 4 AND RXBDLC_RTR \<noteq> 0"
  by (simp add: skb_rtr_123_def eval_defs)

text \<open>
  Claim C7, amended. Whenever \<open>mcp2515_set_txbuf\<close> succeeds on a frame with a length of
  at most 8, bit 6 of the length byte it wrote is set exactly when the frame has the
  remote-request flag, extended or standard alike, and bit 4 of the second identifier
  byte is clear. The decoder reads the flag of an extended frame (bit 3 of the second
  identifier byte set) from bit 6 of the length byte and that of a standard frame from
  bit 4 of the second identifier byte.
\<close>

theorem remote_request_encoding:
  "(mcp2515_set_txbuf buf (Some s) = Inr (rest, n) \<and> can_dlc (skb_data s) \<le> 8 \<longrightarrow>
      (rest ! 4 AND RXBDLC_RTR \<noteq> 0) = (can_id (skb_data s) AND CAN_RTR_FLAG \<noteq> 0) \<and>
      rest ! 1 AND RXBSIDL_SRR = 0) \<and>
   (can_id (rxb_frame b) AND CAN_RTR_FLAG \<noteq> 0) =
     (if b ! 2 AND RXBSIDL_IDE \<noteq> 0 then b ! 5 AND RXBDLC_RTR \<noteq> 0
      else b ! 2 AND RXBSIDL_SRR \<noteq> 0)"
proof -
  have enc: "(rest ! 4 AND RXBDLC_RTR \<noteq> 0) = (can_id (skb_data s) AND CAN_RTR_FLAG \<noteq> 0) \<and>
      rest ! 1 AND RXBSIDL_SRR = 0"
    if r: "mcp2515_set_txbuf buf (Some s) = Inr (rest, n)" and d: "can_dlc (skb_data s) \<le> 8"
  proof -
    note shape = set_txbuf_shape [OF set_txbuf_Inr [OF r]]
    from r shape have rest: "rest ! 4 =
        (if can_id (skb_data s) AND CAN_RTR_FLAG \<noteq> 0
         then can_dlc (skb_data s) OR 0x40 else can_dlc (skb_data s))"
      "rest ! 1 =
        (if can_id (skb_data s) AND CAN_EFF_FLAG \<noteq> 0
         then ucast (drop_bit 13 (can_id (skb_data s)) AND 0xe0 OR 8 OR
                     drop_bit 16 (can_id (skb_data s)) AND 3)
         else ucast (push_bit 5 (can_id (skb_data s))))"
      by auto
    show ?thesis
      unfolding rest using dlc_byte(3,4) [OF d] sidl_ext(2) sidl_std(2) by simp
  qed
  have dec: "(can_id (rxb_frame b) AND CAN_RTR_FLAG \<noteq> 0) =
     (if b ! 2 AND RXBSIDL_IDE \<noteq> 0 then b ! 5 AND RXBDLC_RTR \<noteq> 0
      else b ! 2 AND RXBSIDL_SRR \<noteq> 0)"
    by (rule decode_rtr)
  from enc dec show ?thesis by blast
qed

theorem remote_request_encoding_witness:
  "mcp2515_set_txbuf (replicate 13 0) (Some skb_ext_rtr) =
     Inr ([0xD5, 0xE8, 0xDE, 0xF1, 0x48, 1, 2, 3, 4, 5, 6, 7, 8], 13) \<and>
   can_dlc (skb_data skb_ext_rtr) \<le> 8 \<and>
   can_id (skb_data skb_ext_rtr) AND CAN_RTR_FLAG \<noteq> 0 \<and>
   [0xD5, 0xE8, 0xDE, 0xF1, 0x48, 1, 2, 3, 4, 5, 6, 7, 8 :: u8] ! 4 AND RXBDLC_RTR \<noteq> 0 \<and>
   [0xD5, 0xE8, 0xDE, 0xF1, 0x48, 1, 2, 3, 4, 5, 6, 7, 8 :: u8] ! 1 AND RXBSIDL_SRR = 0 \<and>
   [0x40, 0xD5, 0xE8, 0xDE, 0xF1, 0x48, 1, 2, 3, 4, 5, 6, 7, 8 :: u8] ! 2 AND RXBSIDL_IDE \<noteq> 0 \<and>
   can_id (rxb_frame [0x40, 0xD5, 0xE8, 0xDE, 0xF1, 0x48, 1, 2, 3, 4, 5, 6, 7, 8]) AND
     CAN_RTR_FLAG \<noteq> 0"
proof -
  have e: "mcp2515_set_txbuf (replicate 13 0) (Some skb_ext_rtr) =
     Inr ([0xD5, 0xE8, 0xDE, 0xF1, 0x48, 1, 2, 3, 4, 5, 6, 7, 8], 13)"
    by (simp add: skb_ext_rtr_def eval_defs)
  have d: "can_dlc (skb_data skb_ext_rtr) \<le> 8"
    "can_id (skb_data skb_ext_rtr) AND CAN_RTR_FLAG \<noteq> 0"
    by (simp_all add: skb_ext_rtr_def CAN_RTR_FLAG_def)
  have b: "[0x40, 0xD5, 0xE8, 0xDE, 0xF1, 0x48, 1, 2, 3, 4, 5, 6, 7, 8 :: u8] ! 2 AND
      RXBSIDL_IDE \<noteq> 0"
    "[0x40, 0xD5, 0xE8, 0xDE, 0xF1, 0x48, 1, 2, 3, 4, 5, 6, 7, 8 :: u8] ! 5 AND
      RXBDLC_RTR \<noteq> 0"
    by (simp_all add: RXBSIDL_IDE_def RXBDLC_RTR_def)
  from remote_request_encoding
    [of "replicate 13 0" skb_ext_rtr "[0xD5, 0xE8, 0xDE, 0xF1, 0x48, 1, 2, 3, 4, 5, 6, 7, 8]" 13
        "[0x40, 0xD5, 0xE8, 0xDE, 0xF1, 0x48, 1, 2, 3, 4, 5, 6, 7, 8]"]
    e d b
  show ?thesis by simp
qed

section \<open>Reporting a finished transmission\<close>

text \<open>
  Claim C6, as the spec has it, lets the flags decode that sees the transmit-complete bit
  trigger the report of the finished transmission. In the run below the frame \<open>skb_123\<close>
  is submitted, loaded and sent, and the flags read is answered with the transmit-complete
  bit and the bit of receive buffer 0. The decode issues the read of receive buffer 0, and
  when that has completed the next flags read is issued: nothing was counted or echoed,
  the slot still holds the frame and the queue is still stopped.
\<close>

theorem transmit_complete_bit_not_reported_after_receive:
  "exec [Start_xmit skb_123, Spi_complete [], Spi_complete [], Spi_complete [0, 0, 0x05, 0]]
     dev_init = Inr dev_sent_and_received \<and>
   canintf (priv dev_sent_and_received) AND CANINTF_TX0IF \<noteq> 0 \<and>
   skb (priv dev_sent_and_received) = Some skb_123 \<and>
   message_complete (priv dev_sent_and_received) = Some Read_rxb0_complete \<and>
   tx_packets (stats dev_sent_and_received) = 0 \<and>
   step (Spi_complete [0, 0x24, 0x60, 0, 0, 3, 1, 2, 3, 0, 0, 0, 0, 0]) dev_sent_and_received =
     Inr dev_sent_and_received_next \<and>
   message_complete (priv dev_sent_and_received_next) = Some Read_flags_complete \<and>
   tx_packets (stats dev_sent_and_received_next) = 0 \<and>
   tx_bytes (stats dev_sent_and_received_next) = 0 \<and>
   echo_log dev_sent_and_received_next = [] \<and>
   skb (priv dev_sent_and_received_next) = Some skb_123 \<and>
   queue_stopped dev_sent_and_received_next \<and>
   wake_calls dev_sent_and_received_next = 0"
  by (simp add: dev_sent_and_received_next_def dev_sent_and_received_def eval_defs skb_123_def)

text \<open>
  Claim C6, amended. The flags decode itself reports nothing; it stores the status byte
  as the snapshot. When that byte has the transmit-complete bit and neither receive bit,
  the decode issues the clear-status command. The report is made when a clear-status
  command completes with the transmit-complete bit in the snapshot and a frame in the
  slot: one packet and the length of the frame are counted, the frame is echoed, the slot
  is released and the queue is woken. No other step of the driver changes the count of
  transmitted packets.
\<close>

theorem transmit_completion_reported:
  "(mcp2515_read_flags_complete dev = Inr dev' \<longrightarrow>
      nothing_reported dev dev' \<and> canintf (priv dev') = rx_buf (priv dev) ! 2) \<and>
   (length (tx_buf (priv dev)) = 14 \<and> rx_buf (priv dev) ! 2 = c \<and>
    c AND CANINTF_TX0IF \<noteq> 0 \<and> c AND CANINTF_RX0IF = 0 \<and> c AND CANINTF_RX1IF = 0 \<longrightarrow>
      (\<exists>dev''. mcp2515_read_flags_complete dev = Inr dev'' \<and>
         issued dev dev'' [5, 0x2c, c AND NOT (CANINTF_RX0IF OR CANINTF_RX1IF), 0]
           Clear_canintf_complete)) \<and>
   (canintf (priv d) AND CANINTF_TX0IF \<noteq> 0 \<and> skb (priv d) = Some s \<longrightarrow>
      transmit_reported s d (mcp2515_clear_canintf_complete d)) \<and>
   (step e d0 = Inr d1 \<and> tx_packets (stats d1) \<noteq> tx_packets (stats d0) \<longrightarrow>
      completion e \<and> message_complete (priv d0) = Some Clear_canintf_complete \<and>
      canintf (priv d0) AND CANINTF_TX0IF \<noteq> 0 \<and> skb (priv d0) \<noteq> None)"
proof -
  have a: "mcp2515_read_flags_complete dev = Inr dev' \<longrightarrow>
      nothing_reported dev dev' \<and> canintf (priv dev') = rx_buf (priv dev) ! 2"
    using read_flags_complete_reports_nothing by blast
  have b: "length (tx_buf (priv dev)) = 14 \<and> rx_buf (priv dev) ! 2 = c \<and>
    c AND CANINTF_TX0IF \<noteq> 0 \<and> c AND CANINTF_RX0IF = 0 \<and> c AND CANINTF_RX1IF = 0 \<longrightarrow>
      (\<exists>dev''. mcp2515_read_flags_complete dev = Inr dev'' \<and>
         issued dev dev'' [5, 0x2c, c AND NOT (CANINTF_RX0IF OR CANINTF_RX1IF), 0]
           Clear_canintf_complete)"
  proof (intro impI, elim conjE)
    assume h: "length (tx_buf (priv dev)) = 14" "rx_buf (priv dev) ! 2 = c"
      "c AND CANINTF_TX0IF \<noteq> 0" "c AND CANINTF_RX0IF = 0" "c AND CANINTF_RX1IF = 0"
    from h(3) have "c \<noteq> 0" by auto
    from read_flags_complete_clear [OF h(1,2,4,5) this]
    show "\<exists>dev''. mcp2515_read_flags_complete dev = Inr dev'' \<and>
         issued dev dev'' [5, 0x2c, c AND NOT (CANINTF_RX0IF OR CANINTF_RX1IF), 0]
           Clear_canintf_complete"
      by blast
  qed
  have c: "canintf (priv d) AND CANINTF_TX0IF \<noteq> 0 \<and> skb (priv d) = Some s \<longrightarrow>
      transmit_reported s d (mcp2515_clear_canintf_complete d)"
    using clear_canintf_complete_reports by blast
  have d: "step e d0 = Inr d1 \<and> tx_packets (stats d1) \<noteq> tx_packets (stats d0) \<longrightarrow>
      completion e \<and> message_complete (priv d0) = Some Clear_canintf_complete \<and>
      canintf (priv d0) AND CANINTF_TX0IF \<noteq> 0 \<and> skb (priv d0) \<noteq> None"
    using step_tx_packets [of e d0 d1] by blast
  from a b c d show ?thesis by (intro conjI)
qed

theorem transmit_completion_reported_witness:
  "length (tx_buf (priv dev_sent_reply)) = 14 \<and> rx_buf (priv dev_sent_reply) ! 2 = 0x04 \<and>
   mcp2515_read_flags_complete dev_sent_reply = Inr dev_sent_clearing \<and>
   nothing_reported dev_sent_reply dev_sent_clearing \<and>
   issued dev_sent_reply dev_sent_clearing [5, 0x2c, 0x04, 0] Clear_canintf_complete \<and>
   canintf (priv dev_sent_clearing) AND CANINTF_TX0IF \<noteq> 0 \<and>
   skb (priv dev_sent_clearing) = Some skb_123 \<and>
   transmit_reported skb_123 dev_sent_clearing
     (mcp2515_clear_canintf_complete dev_sent_clearing) \<and>
   step (Spi_complete []) dev_sent_clearing = Inr dev_sent_reported \<and>
   tx_packets (stats dev_sent_clearing) = 0 \<and> tx_packets (stats dev_sent_reported) = 1 \<and>
   message_complete (priv dev_sent_clearing) = Some Clear_canintf_complete"
proof -
  have reply: "length (tx_buf (priv dev_sent_reply)) = 14"
    "rx_buf (priv dev_sent_reply) ! 2 = 0x04"
    by (simp_all add: dev_sent_reply_def eval_defs skb_123_def)
  have decode: "mcp2515_read_flags_complete dev_sent_reply = Inr dev_sent_clearing"
    by (simp add: dev_sent_reply_def dev_sent_clearing_def eval_defs skb_123_def)
  have bits: "(0x04 :: u8) AND CANINTF_TX0IF \<noteq> 0" "(0x04 :: u8) AND CANINTF_RX0IF = 0"
    "(0x04 :: u8) AND CANINTF_RX1IF = 0"
    "(0x04 :: u8) AND NOT (CANINTF_RX0IF OR CANINTF_RX1IF) = 0x04"
    by (simp_all add: CANINTF_TX0IF_def CANINTF_RX0IF_def CANINTF_RX1IF_def)
  have clearing: "canintf (priv dev_sent_clearing) AND CANINTF_TX0IF \<noteq> 0"
    "skb (priv dev_sent_clearing) = Some skb_123"
    "tx_packets (stats dev_sent_clearing) = 0"
    by (simp_all add: dev_sent_clearing_def eval_defs skb_123_def)
  have st: "step (Spi_complete []) dev_sent_clearing = Inr dev_sent_reported"
    by (simp add: dev_sent_reported_def dev_sent_clearing_def eval_defs skb_123_def)
  have after: "tx_packets (stats dev_sent_reported) = 1"
    by (simp add: dev_sent_reported_def dev_sent_clearing_def eval_defs skb_123_def)
  note t = transmit_completion_reported
    [where dev = dev_sent_reply and dev' = dev_sent_clearing and c = "0x04"
       and d = dev_sent_clearing and s = skb_123
       and e = "Spi_complete []" and ?d0.0 = dev_sent_clearing and ?d1.0 = dev_sent_reported]
  have w1: "nothing_reported dev_sent_reply dev_sent_clearing"
    using t decode by blast
  have "\<exists>dev''. mcp2515_read_flags_complete dev_sent_reply = Inr dev'' \<and>
      issued dev_sent_reply dev'' [5, 0x2c, 0x04 AND NOT (CANINTF_RX0IF OR CANINTF_RX1IF), 0]
        Clear_canintf_complete"
    using t reply bits(1,2,3) by blast
  then have w2: "issued dev_sent_reply dev_sent_clearing [5, 0x2c, 0x04, 0]
      Clear_canintf_complete"
    unfolding bits(4) decode by simp
  have w3: "transmit_reported skb_123 dev_sent_clearing
      (mcp2515_clear_canintf_complete dev_sent_clearing)"
    using t clearing(1,2) by blast
  have w4: "message_complete (priv dev_sent_clearing) = Some Clear_canintf_complete"
    using t st clearing(3) after by simp
  from reply decode w1 w2 clearing(1,2) w3 st clearing(3) after w4 show ?thesis
    by (intro conjI)
qed

end
